theory Spec2Isabelle
  imports Main "HOL-Library.Char_ord" "HOL-Library.List_Lexorder"
begin

section \<open>The DTN symbol downloader: data model\<close>

text \<open>
  The development embeds \<^verbatim>\<open>dtn_symbol_downloader.py\<close> and the consumer loop of
  \<^verbatim>\<open>process_symbols.py\<close>. The HTTP transport, the clock and the output directory form
  an explicit \<open>world\<close> that every operation takes and returns. Python exceptions are values:
  an operation returns \<open>Inl (exception, world)\<close> when it raises and \<open>Inr (value, world)\<close>
  when it returns.

  Modelling conventions.
  \<^item> A JSON record is an association list from field names to values, all values strings.
    A pandas DataFrame is its column list and its rows; a missing cell (NaN) is \<open>None\<close>.
  \<^item> The batch files are keyed by their batch number (\<^verbatim>\<open>batch_{i}.csv\<close>) and hold
    the table that \<^verbatim>\<open>to_csv\<close> was given. Reading one back is pandas' \<^verbatim>\<open>read_csv\<close>,
    which parses the text again (default NA strings become NaN, column types are
    inferred): it is a parameter \<open>read_csv\<close> of the model, from the table written to
    the table read.
  \<^item> Partition files are named by path strings built with \<^verbatim>\<open>os.path.join\<close> (POSIX).
    The file system identifies a path with its normal form (\<^verbatim>\<open>normpath\<close>; no symbolic
    links) and knows which directories exist; \<^verbatim>\<open>to_csv\<close> raises OSError when the
    parent directory of its target does not exist.
  \<^item> Of the log lines, only those that identify the control flow are recorded in the trace;
    progress and timing messages are omitted, and so are the statistics that \<open>main\<close>
    prints to the console.
  \<^item> The transport answers a request from the number of requests served so far and the
    request itself; the outcome \<open>Interrupt\<close> is a KeyboardInterrupt raised during the request.
  \<^item> Integers are Python's: unbounded, and a negative sleep raises ValueError.
  \<^item> Other failures of the file system (permissions, space, a file where a directory is
    expected) and of pandas, the KeyError of a missing column apart, are not modelled.
\<close>

type_synonym row = "(string \<times> string) list"

record dataframe =
  columns :: "string list"
  rows :: "row list"

record page =
  symbolList :: "row list"
  totalFound :: int
  hasMore :: bool
  nextKey :: "string option"

datatype body = Data page | Errors "string list" | Other_json | Not_json string

datatype outcome =
    Response int string body
  | Timeout
  | ConnectionError string
  | OtherException string
  | Interrupt

datatype request = Categories | Search "string option"

datatype exn =
    KeyboardInterrupt
  | ValueError string
  | KeyError string
  | UnboundLocalError string
  | OSError string

datatype err =
    ApiError string
  | UnexpectedStructure
  | HttpError int string
  | TimedOut
  | ConnError string
  | Unexpected string

datatype logmsg =
    L_all_retries_failed "err option"
  | L_batch int
  | L_failed_batch int int
  | L_too_many_errors int
  | L_no_symbols
  | L_end_of_data
  | L_safety_limit
  | L_no_data
  | L_split_skipped
  | L_interrupted
  | L_unexpected_error exn

datatype event = Get request | Sleep int | Log logmsg

record checkpoint =
  s_batch :: int
  s_next_key :: "string option"
  s_total_symbols :: int
  s_total_reported :: int

datatype state_content = Corrupt | State checkpoint

text \<open>A normalised path: whether it is absolute, and its components.\<close>

type_synonym path = "bool \<times> string list"

record world =
  calls :: nat
  trace :: "event list"
  batch_files :: "int \<rightharpoonup> dataframe"
  state_file :: "state_content option"
  latest_file :: "dataframe option"
  dirs :: "path set"
  split_files :: "path \<rightharpoonup> dataframe"

type_synonym transport = "nat \<Rightarrow> request \<Rightarrow> outcome"

type_synonym 'a result = "(exn \<times> world) + ('a \<times> world)"

section \<open>Effects\<close>

text \<open>\<^verbatim>\<open>time.sleep\<close> raises ValueError on a negative duration.\<close>

definition sleep :: "int \<Rightarrow> world \<Rightarrow> (exn \<times> world) + world" where
  "sleep secs w =
     (if secs < 0 then Inl (ValueError ''sleep length must be non-negative'', w)
      else Inr (w\<lparr>trace := trace w @ [Sleep secs]\<rparr>))"

definition logger :: "logmsg \<Rightarrow> world \<Rightarrow> world" where
  "logger m w = w\<lparr>trace := trace w @ [Log m]\<rparr>"

text \<open>One GET: the transport answers the request from the number of requests served so far.\<close>

definition session_get :: "transport \<Rightarrow> request \<Rightarrow> world \<Rightarrow> outcome \<times> world" where
  "session_get tr rq w =
     (tr (calls w) rq, w\<lparr>calls := Suc (calls w), trace := trace w @ [Get rq]\<rparr>)"

section \<open>search_symbols\<close>

fun is_prefix :: "string \<Rightarrow> string \<Rightarrow> bool" where
  "is_prefix [] ys = True"
| "is_prefix (x # xs) [] = False"
| "is_prefix (x # xs) (y # ys) = (x = y \<and> is_prefix xs ys)"

text \<open>Python's \<^verbatim>\<open>sub in s\<close> on strings.\<close>

fun contains :: "string \<Rightarrow> string \<Rightarrow> bool" where
  "contains sub [] = (sub = [])"
| "contains sub (c # cs) = (is_prefix sub (c # cs) \<or> contains sub cs)"

datatype attempt_result = Got page | Failed "err option"

text \<open>The handler \<^verbatim>\<open>except Exception as e\<close> of the retry loop.\<close>

definition on_exception :: "string \<Rightarrow> int \<Rightarrow> int \<Rightarrow> int \<Rightarrow> world \<Rightarrow> attempt_result result" where
  "on_exception msg attempt retry_count retry_delay w =
     (if attempt < retry_count - 1 then
        (case sleep retry_delay w of
           Inl e \<Rightarrow> Inl e
         | Inr w' \<Rightarrow> Inr (Failed (Some (Unexpected msg)), w'))
      else Inr (Failed (Some (Unexpected msg)), w))"

text \<open>
  A sleep inside the \<^verbatim>\<open>try\<close> block: its ValueError is caught by the generic handler,
  otherwise the loop continues with the given \<open>last_error\<close>.
\<close>

definition sleep_in_try :: "int \<Rightarrow> err option \<Rightarrow> int \<Rightarrow> int \<Rightarrow> int \<Rightarrow> world \<Rightarrow> attempt_result result" where
  "sleep_in_try wait_time last_error attempt retry_count retry_delay w =
     (case sleep wait_time w of
        Inl (e, w') \<Rightarrow> on_exception ''sleep length must be non-negative'' attempt retry_count retry_delay w'
      | Inr w' \<Rightarrow> Inr (Failed last_error, w'))"

text \<open>
  The body of the \<^verbatim>\<open>for attempt in range(retry_count)\<close> loop. \<open>Got\<close> is the
  \<^verbatim>\<open>return data['data']\<close>; \<open>Failed last_error\<close> means the body ended (by
  \<^verbatim>\<open>continue\<close> or by reaching its end) and the loop goes on with that \<open>last_error\<close>.
\<close>

definition attempt_once ::
  "transport \<Rightarrow> string option \<Rightarrow> int \<Rightarrow> int \<Rightarrow> int \<Rightarrow> err option \<Rightarrow> world \<Rightarrow> attempt_result result" where
  "attempt_once tr key retry_count retry_delay attempt last_error w =
     (case session_get tr (Search key) w of
        (Interrupt, w1) \<Rightarrow> Inl (KeyboardInterrupt, w1)
      | (Timeout, w1) \<Rightarrow>
          (if attempt < retry_count - 1 then
             (case sleep retry_delay w1 of
                Inl e \<Rightarrow> Inl e
              | Inr w2 \<Rightarrow> Inr (Failed (Some TimedOut), w2))
           else Inr (Failed (Some TimedOut), w1))
      | (ConnectionError m, w1) \<Rightarrow>
          (if attempt < retry_count - 1 then
             (case sleep (retry_delay * (attempt + 1)) w1 of
                Inl e \<Rightarrow> Inl e
              | Inr w2 \<Rightarrow> Inr (Failed (Some (ConnError m)), w2))
           else Inr (Failed (Some (ConnError m)), w1))
      | (OtherException m, w1) \<Rightarrow> on_exception m attempt retry_count retry_delay w1
      | (Response status txt b, w1) \<Rightarrow>
          (if status = 200 then
             (case b of
                Not_json m \<Rightarrow> on_exception m attempt retry_count retry_delay w1
              | Data p \<Rightarrow> Inr (Got p, w1)
              | Errors es \<Rightarrow>
                  (let error_msg = (case es of [] \<Rightarrow> ''Unknown error'' | e # _ \<Rightarrow> e) in
                   if contains ''backend search database'' error_msg \<and> attempt < retry_count - 1
                   then sleep_in_try (retry_delay * (attempt + 2)) last_error
                          attempt retry_count retry_delay w1
                   else Inr (Failed (Some (ApiError error_msg)), w1))
              | Other_json \<Rightarrow> Inr (Failed (Some UnexpectedStructure), w1))
           else
             (let http_error = Some (HttpError status (take 200 txt)) in
              if status \<ge> 500 \<and> attempt < retry_count - 1
              then sleep_in_try (retry_delay * (attempt + 1)) http_error
                     attempt retry_count retry_delay w1
              else Inr (Failed http_error, w1))))"

function attempts ::
  "transport \<Rightarrow> string option \<Rightarrow> int \<Rightarrow> int \<Rightarrow> int \<Rightarrow> err option \<Rightarrow> world \<Rightarrow> page option result" where
  "attempts tr key retry_count retry_delay attempt last_error w =
     (if attempt < retry_count then
        (case attempt_once tr key retry_count retry_delay attempt last_error w of
           Inl e \<Rightarrow> Inl e
         | Inr (Got p, w') \<Rightarrow> Inr (Some p, w')
         | Inr (Failed le, w') \<Rightarrow> attempts tr key retry_count retry_delay (attempt + 1) le w')
      else Inr (None, logger (L_all_retries_failed last_error) w))"
  by pat_completeness auto
termination
  by (relation "measure (\<lambda>(tr, key, retry_count, retry_delay, attempt, last_error, w).
        nat (retry_count - attempt))") auto

declare attempts.simps [simp del]

definition search_symbols ::
  "transport \<Rightarrow> string option \<Rightarrow> int \<Rightarrow> int \<Rightarrow> world \<Rightarrow> page option result" where
  "search_symbols tr key retry_count retry_delay w =
     attempts tr key retry_count retry_delay 0 None w"

section \<open>DataFrames\<close>

definition cell :: "row \<Rightarrow> string \<Rightarrow> string option" where
  "cell r c = map_of r c"

fun add_columns :: "string list \<Rightarrow> string list \<Rightarrow> string list" where
  "add_columns cs [] = cs"
| "add_columns cs (x # xs) = add_columns (if x \<in> set cs then cs else cs @ [x]) xs"

text \<open>\<^verbatim>\<open>pd.DataFrame(symbols)\<close> on a list of dicts: the columns are the keys in first-seen order.\<close>

definition DataFrame :: "row list \<Rightarrow> dataframe" where
  "DataFrame symbols = \<lparr>columns = foldl add_columns [] (map (map fst) symbols), rows = symbols\<rparr>"

definition pd_concat :: "dataframe list \<Rightarrow> dataframe" where
  "pd_concat dfs = \<lparr>columns = foldl add_columns [] (map columns dfs), rows = concat (map rows dfs)\<rparr>"

text \<open>
  \<^verbatim>\<open>drop_duplicates(subset=[col])\<close> with the default \<^verbatim>\<open>keep='first'\<close>: a row is kept
  unless an earlier row has the same cell (NaN cells count as equal); a missing column is a KeyError.
\<close>

fun keep_first :: "string \<Rightarrow> string option list \<Rightarrow> row list \<Rightarrow> row list" where
  "keep_first col seen [] = []"
| "keep_first col seen (r # rs) =
     (if cell r col \<in> set seen then keep_first col seen rs
      else r # keep_first col (cell r col # seen) rs)"

definition drop_duplicates :: "string \<Rightarrow> dataframe \<Rightarrow> exn + dataframe" where
  "drop_duplicates col df =
     (if col \<in> set (columns df) then Inr (df\<lparr>rows := keep_first col [] (rows df)\<rparr>)
      else Inl (KeyError col))"

text \<open>
  \<^verbatim>\<open>df.groupby(col)\<close>, iterated: one group per value of the column, in sorted order of the
  values; rows whose cell is NaN belong to no group.
\<close>

definition groupby :: "string \<Rightarrow> dataframe \<Rightarrow> (string \<times> dataframe) list" where
  "groupby col df =
     map (\<lambda>k. (k, df\<lparr>rows := filter (\<lambda>r. cell r col = Some k) (rows df)\<rparr>))
       (sort (remdups (List.map_filter (\<lambda>r. cell r col) (rows df))))"

section \<open>download_all_symbols\<close>

definition save_symbols_batch :: "row list \<Rightarrow> int \<Rightarrow> world \<Rightarrow> dataframe \<times> world" where
  "save_symbols_batch symbols batch_number w =
     (let df = DataFrame symbols in
      (df, w\<lparr>batch_files := (batch_files w)(batch_number \<mapsto> df)\<rparr>))"

text \<open>The result of \<^verbatim>\<open>get_categories\<close> is only logged, so the model returns no value.\<close>

definition get_categories :: "transport \<Rightarrow> world \<Rightarrow> unit result" where
  "get_categories tr w =
     (case session_get tr Categories w of
        (Interrupt, w1) \<Rightarrow> Inl (KeyboardInterrupt, w1)
      | (_, w1) \<Rightarrow> Inr ((), w1))"

record loop_vars =
  batch :: int
  next_key :: "string option"
  total_symbols :: int
  total_reported :: int
  consecutive_errors :: int
  all_dataframes :: "dataframe list"

text \<open>The four \<^verbatim>\<open>break\<close> statements of the \<^verbatim>\<open>while True\<close> loop, in source order.\<close>

datatype exit_reason = TooManyErrors | NoSymbols | EndOfData | SafetyLimit

datatype step = Break exit_reason loop_vars | Again loop_vars

text \<open>
  One pass through the body of the \<^verbatim>\<open>while True\<close> loop, in three parts: the branch taken
  when \<^verbatim>\<open>search_symbols\<close> returned \<^verbatim>\<open>None\<close>, the rest of the body when it returned a
  page, and the body's head, which calls \<^verbatim>\<open>search_symbols\<close> and dispatches.
\<close>

definition handle_failure :: "loop_vars \<Rightarrow> world \<Rightarrow> step result" where
  "handle_failure v w2 =
     (let v1 = v\<lparr>consecutive_errors := consecutive_errors v + 1\<rparr>;
          w3 = logger (L_failed_batch (batch v1) (consecutive_errors v1)) w2
      in if consecutive_errors v1 \<ge> 3
         then Inr (Break TooManyErrors v1,
                   logger (L_too_many_errors (consecutive_errors v1)) w3)
         else (case sleep (30 * consecutive_errors v1) w3 of
                 Inl e \<Rightarrow> Inl e
               | Inr w4 \<Rightarrow> Inr (Again v1, w4)))"

definition handle_page :: "loop_vars \<Rightarrow> page \<Rightarrow> world \<Rightarrow> step result" where
  "handle_page v result w2 =
     (let v1 = v\<lparr>consecutive_errors := 0\<rparr>;
          symbol_list = symbolList result;
          total_found = totalFound result;
          v2 = (if batch v1 = 1 \<and> total_found > 0
                then v1\<lparr>total_reported := total_found\<rparr> else v1)
      in if symbol_list = [] then Inr (Break NoSymbols v2, logger L_no_symbols w2)
         else
           (case save_symbols_batch symbol_list (batch v2) w2 of
              (df, w3) \<Rightarrow>
                (let v3 = v2\<lparr>all_dataframes := all_dataframes v2 @ [df],
                            total_symbols := total_symbols v2 + int (length symbol_list)\<rparr>;
                     has_more = hasMore result;
                     v4 = v3\<lparr>next_key := nextKey result\<rparr>;
                     w4 = w3\<lparr>state_file := Some (State
                            \<lparr>s_batch = batch v4 + 1, s_next_key = next_key v4,
                             s_total_symbols = total_symbols v4,
                             s_total_reported = total_reported v4\<rparr>)\<rparr>
                 in if \<not> has_more \<or> next_key v4 = None
                    then Inr (Break EndOfData v4, logger L_end_of_data w4)
                    else (let v5 = v4\<lparr>batch := batch v4 + 1\<rparr>
                          in if batch v5 > 1000
                             then Inr (Break SafetyLimit v5, logger L_safety_limit w4)
                             else Inr (Again v5, w4)))))"

definition iteration :: "transport \<Rightarrow> int \<Rightarrow> loop_vars \<Rightarrow> world \<Rightarrow> step result" where
  "iteration tr delay v w =
     (let w0 = logger (L_batch (batch v)) w in
      case (if batch v > 1 then sleep delay w0 else Inr w0) of
        Inl e \<Rightarrow> Inl e
      | Inr w1 \<Rightarrow>
          (case search_symbols tr (next_key v) 3 5 w1 of
             Inl e \<Rightarrow> Inl e
           | Inr (None, w2) \<Rightarrow> handle_failure v w2
           | Inr (Some result, w2) \<Rightarrow> handle_page v result w2))"

lemma iteration_Again:
  assumes "iteration tr delay v w = Inr (Again v', w')"
  shows "(batch v' = batch v \<and> consecutive_errors v' = consecutive_errors v + 1
            \<and> consecutive_errors v' < 3)
         \<or> (batch v' = batch v + 1 \<and> batch v' \<le> 1000)"
  using assms
  by (auto simp: iteration_def handle_failure_def handle_page_def Let_def save_symbols_batch_def
           split: sum.splits option.splits if_splits prod.splits)

function while_true ::
  "transport \<Rightarrow> int \<Rightarrow> loop_vars \<Rightarrow> world \<Rightarrow> (exit_reason \<times> loop_vars) result" where
  "while_true tr delay v w =
     (case iteration tr delay v w of
        Inl e \<Rightarrow> Inl e
      | Inr (Break x v', w') \<Rightarrow> Inr ((x, v'), w')
      | Inr (Again v', w') \<Rightarrow> while_true tr delay v' w')"
  by pat_completeness auto
termination
proof (relation "measures [\<lambda>(tr, delay, v, w). nat (1001 - batch v),
                           \<lambda>(tr, delay, v, w). nat (3 - consecutive_errors v)]")
  show "wf (measures [\<lambda>(tr, delay, v, w). nat (1001 - batch v),
                      \<lambda>(tr, delay, v, w). nat (3 - consecutive_errors v)])"
    by simp
next
  fix tr :: transport and delay v w x2 x y x22
  assume "iteration tr delay v w = Inr x2" "(x, y) = x2" "x = Again x22"
  then have "iteration tr delay v w = Inr (Again x22, y)" by simp
  from iteration_Again [OF this]
  show "((tr, delay, x22, y), (tr, delay, v, w))
          \<in> measures [\<lambda>(tr, delay, v, w). nat (1001 - batch v),
                      \<lambda>(tr, delay, v, w). nat (3 - consecutive_errors v)]"
    by auto
qed

declare while_true.simps [simp del]

text \<open>
  Loading the earlier batches and the state file when \<^verbatim>\<open>resume_from_batch > 1\<close>. Each
  batch file that exists is read back with \<^verbatim>\<open>pd.read_csv\<close>.
\<close>

definition load_batches :: "(dataframe \<Rightarrow> dataframe) \<Rightarrow> int \<Rightarrow> world \<Rightarrow> dataframe list" where
  "load_batches read_csv resume_from_batch w =
     map read_csv (List.map_filter (batch_files w) [1..resume_from_batch - 1])"

definition restore_state :: "world \<Rightarrow> string option \<times> int" where
  "restore_state w =
     (case state_file w of
        Some (State s) \<Rightarrow> (s_next_key s, s_total_reported s)
      | Some Corrupt \<Rightarrow> (None, 0)
      | None \<Rightarrow> (None, 0))"

definition initial_vars ::
  "(dataframe \<Rightarrow> dataframe) \<Rightarrow> int option \<Rightarrow> world \<Rightarrow> loop_vars" where
  "initial_vars read_csv resume_from_batch w =
     (let v0 = \<lparr>batch = (case resume_from_batch of
                           None \<Rightarrow> 1
                         | Some n \<Rightarrow> if n = 0 then 1 else n),
                next_key = None, total_symbols = 0, total_reported = 0,
                consecutive_errors = 0, all_dataframes = []\<rparr>
      in case resume_from_batch of
           None \<Rightarrow> v0
         | Some n \<Rightarrow>
             if n > 1 then
               (let dfs = load_batches read_csv n w;
                    (k, t) = restore_state w
                in v0\<lparr>all_dataframes := dfs,
                      total_symbols := sum_list (map (\<lambda>df. int (length (rows df))) dfs),
                      next_key := k, total_reported := t\<rparr>)
             else v0)"

text \<open>The code after the loop: merge, deduplicate, write the merged file, remove the state file.\<close>

definition combine :: "loop_vars \<Rightarrow> world \<Rightarrow> dataframe option result" where
  "combine v w =
     (if all_dataframes v \<noteq> [] then
        (case drop_duplicates ''symbol'' (pd_concat (all_dataframes v)) of
           Inl e \<Rightarrow> Inl (e, w)
         | Inr combined_df \<Rightarrow>
             Inr (Some combined_df, w\<lparr>latest_file := Some combined_df, state_file := None\<rparr>))
      else Inr (None, logger L_no_data w))"

definition download_all_symbols ::
  "(dataframe \<Rightarrow> dataframe) \<Rightarrow> transport \<Rightarrow> int \<Rightarrow> int option \<Rightarrow> world
     \<Rightarrow> dataframe option result" where
  "download_all_symbols read_csv tr delay resume_from_batch w =
     (let v = initial_vars read_csv resume_from_batch w in
      case (if batch v = 1 then get_categories tr w else Inr ((), w)) of
        Inl e \<Rightarrow> Inl e
      | Inr (u, w1) \<Rightarrow>
          (case while_true tr delay v w1 of
             Inl e \<Rightarrow> Inl e
           | Inr ((x, v'), w2) \<Rightarrow> combine v' w2))"

section \<open>Paths and directories\<close>

text \<open>\<^verbatim>\<open>os.path.join\<close> of two components (posixpath).\<close>

definition os_path_join :: "string \<Rightarrow> string \<Rightarrow> string" where
  "os_path_join a b =
     (if b \<noteq> [] \<and> hd b = CHR ''/'' then b
      else if a = [] \<or> last a = CHR ''/'' then a @ b
      else a @ ''/'' @ b)"

text \<open>\<^verbatim>\<open>s.split('/')\<close>.\<close>

fun split_sep :: "string \<Rightarrow> string list" where
  "split_sep [] = [[]]"
| "split_sep (c # cs) =
     (if c = CHR ''/'' then [] # split_sep cs
      else (case split_sep cs of [] \<Rightarrow> [[c]] | x # xs \<Rightarrow> (c # x) # xs))"

text \<open>The loop of \<^verbatim>\<open>posixpath.normpath\<close> over the components.\<close>

fun norm_comps :: "bool \<Rightarrow> string list \<Rightarrow> string list \<Rightarrow> string list" where
  "norm_comps absolute new_comps [] = new_comps"
| "norm_comps absolute new_comps (name # comps) =
     (if name = [] \<or> name = ''.'' then norm_comps absolute new_comps comps
      else if name \<noteq> ''..'' \<or> (\<not> absolute \<and> new_comps = [])
                \<or> (new_comps \<noteq> [] \<and> last new_comps = ''..'')
           then norm_comps absolute (new_comps @ [name]) comps
      else if new_comps \<noteq> [] then norm_comps absolute (butlast new_comps) comps
      else norm_comps absolute new_comps comps)"

definition normpath :: "string \<Rightarrow> path" where
  "normpath s =
     (let absolute = (s \<noteq> [] \<and> hd s = CHR ''/'')
      in (absolute, norm_comps absolute [] (split_sep s)))"

text \<open>\<^verbatim>\<open>os.makedirs(name, exist_ok=True)\<close>: the directory and all its ancestors exist afterwards.\<close>

fun ancestors :: "string list \<Rightarrow> string list list" where
  "ancestors [] = [[]]"
| "ancestors (c # cs) = [] # map ((#) c) (ancestors cs)"

definition makedirs :: "string \<Rightarrow> world \<Rightarrow> world" where
  "makedirs name w =
     (case normpath name of
        (absolute, comps) \<Rightarrow>
          w\<lparr>dirs := dirs w \<union> set (map (Pair absolute) (ancestors comps))\<rparr>)"

text \<open>
  \<^verbatim>\<open>df.to_csv(file_path, index=False)\<close> into the partition tree: pandas raises OSError when
  the parent directory of the target does not exist (the working directory, its ancestors
  and the root always do).
\<close>

definition to_csv :: "dataframe \<Rightarrow> string \<Rightarrow> world \<Rightarrow> (exn \<times> world) + world" where
  "to_csv df file_path w =
     (case normpath file_path of
        (absolute, comps) \<Rightarrow>
          if comps \<noteq> []
             \<and> (list_all (\<lambda>c. c = ''..'') (butlast comps) \<or> (absolute, butlast comps) \<in> dirs w)
          then Inr (w\<lparr>split_files := (split_files w)((absolute, comps) \<mapsto> df)\<rparr>)
          else Inl (OSError ''Cannot save file into a non-existent directory'', w))"

text \<open>A \<^verbatim>\<open>for\<close> loop whose body may raise: the first exception ends it.\<close>

fun for_each :: "(world \<Rightarrow> 'a \<Rightarrow> (exn \<times> world) + world) \<Rightarrow> world \<Rightarrow> 'a list \<Rightarrow> (exn \<times> world) + world" where
  "for_each body w [] = Inr w"
| "for_each body w (x # xs) =
     (case body w x of
        Inl e \<Rightarrow> Inl e
      | Inr w' \<Rightarrow> for_each body w' xs)"

section \<open>Partition and main\<close>

text \<open>The constructor's default \<^verbatim>\<open>output_dir\<close>, which \<open>main\<close> uses.\<close>

definition output_dir :: string where
  "output_dir = ''dtn_symbols''"

text \<open>The body of the inner loop, over the security types of one exchange.\<close>

definition write_group :: "string \<Rightarrow> world \<Rightarrow> string \<times> dataframe \<Rightarrow> (exn \<times> world) + world" where
  "write_group exchange_dir w g =
     (let file_name = fst g @ ''.csv'';
          file_path = os_path_join exchange_dir file_name
      in to_csv (snd g) file_path w)"

text \<open>The body of the outer loop, over the exchanges.\<close>

definition write_exchange :: "string \<Rightarrow> world \<Rightarrow> string \<times> dataframe \<Rightarrow> (exn \<times> world) + world" where
  "write_exchange split_output_dir w g =
     (let exchange_dir = os_path_join split_output_dir (fst g);
          w1 = makedirs exchange_dir w
      in for_each (write_group exchange_dir) w1 (groupby ''securityType'' (snd g)))"

definition split_symbols_by_exchange_and_type ::
  "dataframe option \<Rightarrow> world \<Rightarrow> (exn \<times> world) + world" where
  "split_symbols_by_exchange_and_type dataframe w =
     (case dataframe of
        None \<Rightarrow> Inr (logger L_split_skipped w)
      | Some df \<Rightarrow>
          if ''exchange'' \<notin> set (columns df) \<or> ''securityType'' \<notin> set (columns df)
          then Inr (logger L_split_skipped w)
          else
            (let split_output_dir = os_path_join output_dir ''by_exchange'';
                 w1 = makedirs split_output_dir w
             in for_each (write_exchange split_output_dir) w1 (groupby ''exchange'' df)))"

definition cleanup_batch_files :: "world \<Rightarrow> world" where
  "cleanup_batch_files w = w\<lparr>batch_files := Map.empty\<rparr>"

text \<open>
  The \<^verbatim>\<open>finally\<close> clause of \<^verbatim>\<open>main\<close> reads the local variable \<^verbatim>\<open>result_df\<close>. The
  variable is bound only when \<^verbatim>\<open>download_all_symbols\<close> has returned; reading it unbound
  raises UnboundLocalError. The outer option is the binding, the inner one the value.
\<close>

definition finally_block :: "dataframe option option \<Rightarrow> world \<Rightarrow> unit result" where
  "finally_block result_df w =
     (case result_df of
        None \<Rightarrow> Inl (UnboundLocalError ''result_df'', w)
      | Some None \<Rightarrow> Inr ((), w)
      | Some (Some df) \<Rightarrow>
          if length (rows df) > 0 then Inr ((), cleanup_batch_files w) else Inr ((), w))"

definition main ::
  "(dataframe \<Rightarrow> dataframe) \<Rightarrow> transport \<Rightarrow> int option \<Rightarrow> int \<Rightarrow> world \<Rightarrow> unit result" where
  "main read_csv tr resume delay w =
     (case download_all_symbols read_csv tr delay resume w of
        Inr (None, w1) \<Rightarrow> finally_block (Some None) w1
      | Inr (Some df, w1) \<Rightarrow>
          (case split_symbols_by_exchange_and_type (Some df) w1 of
             Inr w2 \<Rightarrow> finally_block (Some (Some df)) w2
           | Inl (e, w2) \<Rightarrow> finally_block (Some (Some df)) (logger (L_unexpected_error e) w2))
      | Inl (KeyboardInterrupt, w1) \<Rightarrow> finally_block None (logger L_interrupted w1)
      | Inl (e, w1) \<Rightarrow> finally_block None (logger (L_unexpected_error e) w1))"

section \<open>The downstream consumer\<close>

text \<open>
  \<^verbatim>\<open>process_and_store_symbols\<close> walks the extracted tree: \<open>tree exchange_name\<close> is \<open>None\<close>
  when the exchange directory is missing, otherwise the tables of its CSV files in glob
  order, as \<^verbatim>\<open>pd.read_csv\<close> returns them. The store maps a key string to the records.
\<close>

type_synonym redis = "string \<rightharpoonup> row list"

definition store_group :: "string \<Rightarrow> nat \<times> redis \<Rightarrow> string \<times> dataframe \<Rightarrow> nat \<times> redis" where
  "store_group exchange_name st g =
     (let redis_key = ''symbols:'' @ exchange_name @ '':'' @ fst g
      in (fst st + length (rows (snd g)), (snd st)(redis_key \<mapsto> rows (snd g))))"

definition store_file :: "string \<Rightarrow> nat \<times> redis \<Rightarrow> dataframe \<Rightarrow> nat \<times> redis" where
  "store_file exchange_name st df =
     (if ''symbol'' \<notin> set (columns df) \<or> ''exchange'' \<notin> set (columns df)
         \<or> ''securityType'' \<notin> set (columns df)
      then st
      else
        (let df_filtered = df\<lparr>rows := filter (\<lambda>r. cell r ''exchange'' = Some exchange_name) (rows df)\<rparr>
         in if rows df_filtered = [] then st
            else foldl (store_group exchange_name) st (groupby ''securityType'' df_filtered)))"

definition process_and_store_symbols ::
  "(string \<Rightarrow> dataframe list option) \<Rightarrow> redis \<Rightarrow> string list \<Rightarrow> nat \<times> redis" where
  "process_and_store_symbols tree redis_client target_exchanges =
     foldl (\<lambda>st exchange_name.
              case tree exchange_name of
                None \<Rightarrow> st
              | Some csv_files \<Rightarrow> foldl (store_file exchange_name) st csv_files)
       (0, redis_client) target_exchanges"

section \<open>Concrete inputs\<close>

definition w_empty :: world where
  "w_empty = \<lparr>calls = 0, trace = [], batch_files = Map.empty, state_file = None,
              latest_file = None, dirs = {}, split_files = Map.empty\<rparr>"

definition tr_interrupt :: transport where
  "tr_interrupt n rq = Interrupt"

definition tr_404 :: transport where
  "tr_404 n rq = Response 404 ''Not Found'' Other_json"

definition tr_invalid :: transport where
  "tr_invalid n rq = Response 200 [] (Errors [''Invalid query''])"

definition tr_timeout :: transport where
  "tr_timeout n rq = Timeout"

definition tr_503 :: transport where
  "tr_503 n rq = Response 503 ''Service Unavailable'' Other_json"

definition page_one :: page where
  "page_one = \<lparr>symbolList = [[(''symbol'', ''A'')]], totalFound = 2, hasMore = True,
               nextKey = Some ''k1''\<rparr>"

definition tr_abort :: transport where
  "tr_abort n rq = (if n = 0 then Response 200 [] Other_json
                    else if n = 1 then Response 200 [] (Data page_one) else Timeout)"

definition df_one :: dataframe where
  "df_one = \<lparr>columns = [''symbol''], rows = [[(''symbol'', ''A'')]]\<rparr>"

definition page_last :: page where
  "page_last = \<lparr>symbolList = [[(''symbol'', ''B'')]], totalFound = 2, hasMore = False,
                nextKey = None\<rparr>"

definition tr_two_pages :: transport where
  "tr_two_pages n rq =
     (case rq of
        Categories \<Rightarrow> Response 200 [] Other_json
      | Search None \<Rightarrow> Response 200 [] (Data page_one)
      | Search (Some k) \<Rightarrow> Response 200 [] (Data page_last))"

definition row_a :: row where
  "row_a = [(''symbol'', ''A''), (''exchange'', ''NYSE''), (''securityType'', ''EQUITY'')]"

definition row_b :: row where
  "row_b = [(''symbol'', ''@ES''), (''exchange'', ''CME''), (''securityType'', ''FUTURE'')]"

definition df_two :: dataframe where
  "df_two = \<lparr>columns = [''symbol'', ''exchange'', ''securityType''], rows = [row_a, row_b]\<rparr>"

definition tree_one :: "string \<Rightarrow> dataframe list option" where
  "tree_one e = (if e = ''NYSE'' then Some [df_two\<lparr>rows := [row_a]\<rparr>] else None)"

definition w_categories :: world where
  "w_categories = w_empty\<lparr>calls := 1, trace := [Get Categories]\<rparr>"

text \<open>
  A table whose security type holds a slash.
\<close>

definition df_slash :: dataframe where
  "df_slash = \<lparr>columns = [''symbol'', ''exchange'', ''securityType''],
                rows = [[(''symbol'', ''X''), (''exchange'', ''NYSE''), (''securityType'', ''EQ/OPT'')]]\<rparr>"

text \<open>
  The strings that \<^verbatim>\<open>pd.read_csv\<close> reads as NaN by default, and what reading back does to a
  table none of whose other cells is numeric or boolean: the cells holding such a string
  are missing afterwards, the rest is as written.
\<close>

definition na_values :: "string list" where
  "na_values = [[], ''#N/A'', ''#N/A N/A'', ''#NA'', ''-1.#IND'', ''-1.#QNAN'', ''-NaN'', ''-nan'',
                ''1.#IND'', ''1.#QNAN'', ''<NA>'', ''N/A'', ''NA'', ''NULL'', ''NaN'', ''None'',
                ''n/a'', ''nan'', ''null'']"

definition read_csv_na :: "dataframe \<Rightarrow> dataframe" where
  "read_csv_na df = df\<lparr>rows := map (filter (\<lambda>kv. snd kv \<notin> set na_values)) (rows df)\<rparr>"

text \<open>A backend with two pages, the first of which holds the ticker \<^verbatim>\<open>NA\<close>.\<close>

definition page_na :: page where
  "page_na = \<lparr>symbolList = [[(''symbol'', ''NA'')]], totalFound = 2, hasMore = True,
              nextKey = Some ''k1''\<rparr>"

definition tr_na_pages :: transport where
  "tr_na_pages n rq =
     (case rq of
        Categories \<Rightarrow> Response 200 [] Other_json
      | Search None \<Rightarrow> Response 200 [] (Data page_na)
      | Search (Some k) \<Rightarrow> Response 200 [] (Data page_last))"

definition df_na :: dataframe where
  "df_na = \<lparr>columns = [''symbol''], rows = [[(''symbol'', ''NA'')]]\<rparr>"

definition df_b :: dataframe where
  "df_b = \<lparr>columns = [''symbol''], rows = [[(''symbol'', ''B'')]]\<rparr>"

text \<open>The loop variables and the world after the first pass against that backend.\<close>

definition v_na_after_one :: loop_vars where
  "v_na_after_one = \<lparr>batch = 2, next_key = Some ''k1'', total_symbols = 1, total_reported = 2,
                      consecutive_errors = 0, all_dataframes = [df_na]\<rparr>"

definition w_na_after_one :: world where
  "w_na_after_one = \<lparr>calls = 2,
                      trace = [Get Categories, Log (L_batch 1), Get (Search None)],
                      batch_files = [1 \<mapsto> df_na],
                      state_file = Some (State \<lparr>s_batch = 2, s_next_key = Some ''k1'',
                                                s_total_symbols = 1, s_total_reported = 2\<rparr>),
                      latest_file = None, dirs = {}, split_files = Map.empty\<rparr>"

text \<open>An output directory that holds the first batch but no state file.\<close>

definition w_na_no_state :: world where
  "w_na_no_state = \<lparr>calls = 0, trace = [], batch_files = [1 \<mapsto> df_na], state_file = None,
                     latest_file = None, dirs = {}, split_files = Map.empty\<rparr>"

section \<open>Specification-side notions\<close>

fun sleeps_of :: "event list \<Rightarrow> int list" where
  "sleeps_of [] = []"
| "sleeps_of (Sleep d # es) = d # sleeps_of es"
| "sleeps_of (e # es) = sleeps_of es"

fun gets_of :: "event list \<Rightarrow> request list" where
  "gets_of [] = []"
| "gets_of (Get rq # es) = rq # gets_of es"
| "gets_of (e # es) = gets_of es"

definition backoff_schedule :: "string option \<Rightarrow> int \<Rightarrow> int \<Rightarrow> int \<Rightarrow> event list" where
  "backoff_schedule key retry_count retry_delay from =
     concat (map (\<lambda>i. Get (Search key) #
                       (if i < retry_count - 1 then [Sleep (retry_delay * (i + 1))] else []))
               [from..retry_count - 1])"

definition describe :: "outcome \<Rightarrow> err option" where
  "describe out =
     (case out of
        Response status txt b \<Rightarrow>
          (if status = 200 then
             (case b of
                Data p \<Rightarrow> None
              | Errors es \<Rightarrow> Some (ApiError (case es of [] \<Rightarrow> ''Unknown error'' | e # _ \<Rightarrow> e))
              | Other_json \<Rightarrow> Some UnexpectedStructure
              | Not_json m \<Rightarrow> Some (Unexpected m))
           else Some (HttpError status (take 200 txt)))
      | Timeout \<Rightarrow> Some TimedOut
      | ConnectionError m \<Rightarrow> Some (ConnError m)
      | OtherException m \<Rightarrow> Some (Unexpected m)
      | Interrupt \<Rightarrow> None)"

text \<open>The batch headers logged at the top of each pass through the harvest loop.\<close>

fun batch_headers :: "event list \<Rightarrow> int list" where
  "batch_headers [] = []"
| "batch_headers (Log (L_batch b) # es) = b # batch_headers es"
| "batch_headers (e # es) = batch_headers es"

text \<open>
  The path string the partition step computes for an exchange and a security type, and the
  path the specification names, \<^verbatim>\<open><output>/by_exchange/<exchange>/<securityType>.csv\<close>, by
  its components.
\<close>

definition split_path :: "string \<Rightarrow> string \<Rightarrow> string" where
  "split_path exchange sec_type =
     os_path_join (os_path_join (os_path_join output_dir ''by_exchange'') exchange)
       (sec_type @ ''.csv'')"

definition named_path :: "string \<Rightarrow> string \<Rightarrow> path" where
  "named_path exchange sec_type =
     (False, [output_dir, ''by_exchange'', exchange, sec_type @ ''.csv''])"

text \<open>
  A value that is one path component: not empty, not \<^verbatim>\<open>.\<close> or \<^verbatim>\<open>..\<close>, and without a
  slash. A table is path-safe when its exchange values are such components and its
  security types hold no slash (with the suffix \<^verbatim>\<open>.csv\<close> they are never empty or dots).
\<close>

definition safe_component :: "string \<Rightarrow> bool" where
  "safe_component c = (c \<noteq> [] \<and> c \<noteq> ''.'' \<and> c \<noteq> ''..'' \<and> CHR ''/'' \<notin> set c)"

definition path_safe :: "dataframe \<Rightarrow> bool" where
  "path_safe df =
     list_all (\<lambda>r. (case cell r ''exchange'' of None \<Rightarrow> True | Some e \<Rightarrow> safe_component e)
                  \<and> (case cell r ''securityType'' of None \<Rightarrow> True
                      | Some t \<Rightarrow> CHR ''/'' \<notin> set t))
       (rows df)"

text \<open>
  The files the partition step writes for a table, in the order of writing: one entry per
  exchange group and, within it, per security-type group.
\<close>

definition files_of :: "(string \<times> dataframe) list \<Rightarrow> (path \<times> dataframe) list" where
  "files_of exchange_groups =
     concat (map (\<lambda>g. map (\<lambda>h. (named_path (fst g) (fst h), snd h))
                          (groupby ''securityType'' (snd g)))
               exchange_groups)"

text \<open>
  The key under which the consumer stores a group, and a store whose every entry holds
  only records of an exchange and a type that its key names.
\<close>

definition redis_key :: "string \<Rightarrow> string \<Rightarrow> string" where
  "redis_key exchange_name sec_type = ''symbols:'' @ exchange_name @ '':'' @ sec_type"

definition redis_matches :: "redis \<Rightarrow> bool" where
  "redis_matches rd =
     (\<forall>k rs. rd k = Some rs \<longrightarrow>
        (\<exists>e t. k = redis_key e t
           \<and> (\<forall>r \<in> set rs. cell r ''exchange'' = Some e \<and> cell r ''securityType'' = Some t)))"

definition put_file :: "('k \<rightharpoonup> 'v) \<Rightarrow> 'k \<times> 'v \<Rightarrow> ('k \<rightharpoonup> 'v)" where
  "put_file m kv = m(fst kv \<mapsto> snd kv)"

text \<open>
  The first \<open>n\<close> passes of the harvest loop: \<open>Inr (Again v, w)\<close> when all of them end
  by going round the loop again, leaving the loop at its top with the variables \<open>v\<close> in the
  world \<open>w\<close>.
\<close>

fun passes :: "nat \<Rightarrow> transport \<Rightarrow> int \<Rightarrow> loop_vars \<Rightarrow> world \<Rightarrow> step result" where
  "passes 0 tr delay v w = Inr (Again v, w)"
| "passes (Suc n) tr delay v w =
     (case iteration tr delay v w of
        Inr (Again v', w') \<Rightarrow> passes n tr delay v' w'
      | Inr (Break x v', w') \<Rightarrow> Inr (Break x v', w')
      | Inl e \<Rightarrow> Inl e)"

section \<open>search_symbols: lemmas\<close>

lemma sleeps_of_append: "sleeps_of (xs @ ys) = sleeps_of xs @ sleeps_of ys"
  by (induction xs rule: sleeps_of.induct) auto

lemma gets_of_append: "gets_of (xs @ ys) = gets_of xs @ gets_of ys"
  by (induction xs rule: gets_of.induct) auto

lemma backoff_schedule_step:
  "a < rc \<Longrightarrow> backoff_schedule key rc rd a =
     Get (Search key) # (if a < rc - 1 then [Sleep (rd * (a + 1))] else [])
       @ backoff_schedule key rc rd (a + 1)"
  by (simp add: backoff_schedule_def upto_rec1 [of a "rc - 1"])

lemma backoff_schedule_done: "\<not> a < rc \<Longrightarrow> backoff_schedule key rc rd a = []"
  by (simp add: backoff_schedule_def)

lemma attempt_once_server_error:
  assumes "tr (calls w) (Search key) = Response status txt b" "500 \<le> status"
    and "0 \<le> rd" "0 \<le> a"
  shows "attempt_once tr key rc rd a le w =
           Inr (Failed (Some (HttpError status (take 200 txt))),
                w\<lparr>calls := Suc (calls w),
                  trace := trace w @ Get (Search key) #
                             (if a < rc - 1 then [Sleep (rd * (a + 1))] else [])\<rparr>)"
proof -
  have "0 \<le> rd * (a + 1)" using assms(3,4) by simp
  then show ?thesis
    using assms(1,2)
    by (simp add: attempt_once_def session_get_def sleep_in_try_def sleep_def Let_def)
qed

lemma attempts_server_error:
  assumes "\<forall>n. \<exists>status txt b. tr n (Search key) = Response status txt b \<and> 500 \<le> status"
    and "0 \<le> rd" "0 \<le> a"
  shows "\<exists>le'. attempts tr key rc rd a le w =
           Inr (None, w\<lparr>calls := calls w + nat (rc - a),
                        trace := trace w @ backoff_schedule key rc rd a
                                   @ [Log (L_all_retries_failed le')]\<rparr>)"
  using assms
proof (induction tr key rc rd a le w rule: attempts.induct)
  case (1 tr key rc rd a le w)
  show ?case
  proof (cases "a < rc")
    case False
    then show ?thesis
      by (subst attempts.simps) (auto simp: backoff_schedule_done logger_def)
  next
    case True
    from "1.prems"(1) obtain status tx b
      where r: "tr (calls w) (Search key) = Response status tx b" "500 \<le> status"
      by blast
    let ?w1 = "w\<lparr>calls := Suc (calls w),
                  trace := trace w @ Get (Search key) #
                             (if a < rc - 1 then [Sleep (rd * (a + 1))] else [])\<rparr>"
    let ?le1 = "Some (HttpError status (take 200 tx))"
    have once: "attempt_once tr key rc rd a le w = Inr (Failed ?le1, ?w1)"
      by (rule attempt_once_server_error [where b = b]) (use r "1.prems" in simp_all)
    have "0 \<le> a + 1" using "1.prems" by simp
    from "1.IH" [OF True once refl refl "1.prems"(1,2) this]
    obtain le' where rec:
      "attempts tr key rc rd (a + 1) ?le1 ?w1 =
         Inr (None, ?w1\<lparr>calls := calls ?w1 + nat (rc - (a + 1)),
                        trace := trace ?w1 @ backoff_schedule key rc rd (a + 1)
                                   @ [Log (L_all_retries_failed le')]\<rparr>)"
      by blast
    have unfold: "attempts tr key rc rd a le w = attempts tr key rc rd (a + 1) ?le1 ?w1"
      using True once by (subst attempts.simps) simp
    have n: "Suc (calls w) + nat (rc - (a + 1)) = calls w + nat (rc - a)"
      using True by simp
    have "?w1\<lparr>calls := calls ?w1 + nat (rc - (a + 1)),
              trace := trace ?w1 @ backoff_schedule key rc rd (a + 1)
                         @ [Log (L_all_retries_failed le')]\<rparr>
          = w\<lparr>calls := calls w + nat (rc - a),
              trace := trace w @ backoff_schedule key rc rd a
                         @ [Log (L_all_retries_failed le')]\<rparr>"
      using n by (simp add: backoff_schedule_step [OF True])
    with rec unfold show ?thesis
      by (intro exI [of _ le']) simp
  qed
qed

lemma gets_of_backoff_schedule:
  "0 \<le> a \<Longrightarrow> gets_of (backoff_schedule key rc rd a) = replicate (nat (rc - a)) (Search key)"
proof (induction "nat (rc - a)" arbitrary: a)
  case 0
  then show ?case by (simp add: backoff_schedule_done)
next
  case (Suc n)
  then have lt: "a < rc" and n: "n = nat (rc - (a + 1))" by auto
  have "0 \<le> a + 1" using Suc.prems by simp
  from Suc.hyps(1) [OF n this] Suc.hyps(2) [symmetric] show ?case
    by (simp add: backoff_schedule_step [OF lt] n)
qed

lemma sleeps_of_backoff_schedule:
  "sleeps_of (backoff_schedule key rc rd a) = map (\<lambda>i. rd * (i + 1)) [a..rc - 2]"
proof (induction "nat (rc - a)" arbitrary: a)
  case 0
  then show ?case by (simp add: backoff_schedule_done)
next
  case (Suc n)
  then have lt: "a < rc" and n: "n = nat (rc - (a + 1))" by auto
  show ?case
  proof (cases "a < rc - 1")
    case True
    then have "[a..rc - 2] = a # [a + 1..rc - 2]" by (simp add: upto_rec1)
    with Suc.hyps(1) [OF n] True show ?thesis
      by (simp add: backoff_schedule_step [OF lt])
  next
    case False
    with lt have "\<not> a + 1 < rc" by simp
    with False show ?thesis
      by (simp add: backoff_schedule_step [OF lt] backoff_schedule_done)
  qed
qed

lemma sorted_backoff:
  assumes "0 \<le> (rd::int)"
  shows "sorted (map (\<lambda>i. rd * (i + 1)) [a..b])"
proof -
  have "sorted [a..b]" by simp
  moreover have "mono (\<lambda>i. rd * (i + 1))"
    using assms by (simp add: mono_def mult_left_mono)
  ultimately show ?thesis
    by (simp add: sorted_map mono_def sorted_wrt_iff_nth_less)
qed

text \<open>
  C6. When every attempt of one call of \<open>search_symbols\<close> receives an HTTP status of at
  least 500, the call makes exactly \<open>retry_count\<close> requests; after the failed attempt with
  0-based index \<open>i\<close> (the last one apart) it sleeps \<open>retry_delay * (i + 1)\<close> seconds, so the
  delays are non-decreasing; then it gives up and returns \<open>None\<close>. The retry count and the
  delay are taken non-negative, as counts and durations are.
\<close>

theorem server_error_backoff:
  assumes "\<forall>n. \<exists>status txt b. tr n (Search key) = Response status txt b \<and> 500 \<le> status"
    and "0 \<le> retry_delay" and "0 \<le> retry_count"
  shows "\<exists>w' le. search_symbols tr key retry_count retry_delay w = Inr (None, w')
           \<and> trace w' = trace w @ backoff_schedule key retry_count retry_delay 0
                          @ [Log (L_all_retries_failed le)]
           \<and> calls w' = calls w + nat retry_count
           \<and> gets_of (backoff_schedule key retry_count retry_delay 0)
               = replicate (nat retry_count) (Search key)
           \<and> sleeps_of (backoff_schedule key retry_count retry_delay 0)
               = map (\<lambda>i. retry_delay * (i + 1)) [0..retry_count - 2]
           \<and> sorted (sleeps_of (backoff_schedule key retry_count retry_delay 0))"
proof -
  from attempts_server_error [of tr key retry_delay 0 retry_count None w] assms(1,2)
  obtain le where
    "search_symbols tr key retry_count retry_delay w =
       Inr (None, w\<lparr>calls := calls w + nat retry_count,
                    trace := trace w @ backoff_schedule key retry_count retry_delay 0
                               @ [Log (L_all_retries_failed le)]\<rparr>)"
    by (auto simp: search_symbols_def)
  then show ?thesis
    using gets_of_backoff_schedule [of 0 key retry_count retry_delay]
      sorted_backoff [OF assms(2), of 0 "retry_count - 2"]
    by (simp add: sleeps_of_backoff_schedule)
qed

theorem server_error_backoff_witness:
  "\<exists>w' le. search_symbols tr_503 None 3 5 w_empty = Inr (None, w')
      \<and> trace w' = [Get (Search None), Sleep 5, Get (Search None), Sleep 10, Get (Search None),
                    Log (L_all_retries_failed le)]
      \<and> calls w' = 3"
proof -
  have h: "\<forall>n. \<exists>status txt b. tr_503 n (Search None) = Response status txt b \<and> 500 \<le> status"
    by (simp add: tr_503_def)
  have s: "backoff_schedule None 3 5 0 =
             [Get (Search None), Sleep 5, Get (Search None), Sleep 10, Get (Search None)]"
    by (simp add: backoff_schedule_def upto_rec1)
  from server_error_backoff [of tr_503 None 5 3 w_empty] h
  obtain w' le where "search_symbols tr_503 None 3 5 w_empty = Inr (None, w')"
    "trace w' = trace w_empty @ backoff_schedule None 3 5 0 @ [Log (L_all_retries_failed le)]"
    "calls w' = calls w_empty + nat 3"
    by auto
  then show ?thesis
    by (auto simp: s w_empty_def)
qed

lemma attempt_once_failed:
  assumes "describe (tr (calls w) (Search key)) \<noteq> None" "0 \<le> rd" "0 \<le> a"
  shows "\<exists>le1 w1. attempt_once tr key rc rd a le w = Inr (Failed le1, w1)
           \<and> calls w1 = Suc (calls w)
           \<and> (\<not> a < rc - 1 \<longrightarrow> le1 = describe (tr (calls w) (Search key)))"
proof -
  have "0 \<le> rd * (a + 1)" "0 \<le> rd * (a + 2)" using assms(2,3) by simp_all
  then show ?thesis
    using assms(1,2)
    by (cases "tr (calls w) (Search key)")
       (auto simp: attempt_once_def session_get_def sleep_in_try_def sleep_def on_exception_def
                   Let_def describe_def
             split: body.splits list.splits)
qed

lemma attempts_exhaust:
  assumes "\<forall>n. describe (tr n (Search key)) \<noteq> None" "0 \<le> rd" "0 \<le> a"
  shows "\<exists>w' pre. attempts tr key rc rd a le w = Inr (None, w')
           \<and> calls w' = calls w + nat (rc - a)
           \<and> trace w' = pre @ [Log (L_all_retries_failed
                (if a < rc then describe (tr (calls w' - 1) (Search key)) else le))]"
  using assms
proof (induction tr key rc rd a le w rule: attempts.induct)
  case (1 tr key rc rd a le w)
  show ?case
  proof (cases "a < rc")
    case False
    then show ?thesis by (subst attempts.simps) (simp add: logger_def)
  next
    case True
    from attempt_once_failed [of tr w key rd a rc le] "1.prems"
    obtain le1 w1 where once: "attempt_once tr key rc rd a le w = Inr (Failed le1, w1)"
      and c: "calls w1 = Suc (calls w)"
      and d: "\<not> a < rc - 1 \<Longrightarrow> le1 = describe (tr (calls w) (Search key))"
      by blast
    have unfold: "attempts tr key rc rd a le w = attempts tr key rc rd (a + 1) le1 w1"
      using True once by (subst attempts.simps) simp
    have "0 \<le> a + 1" using "1.prems" by simp
    from "1.IH" [OF True once refl refl "1.prems"(1,2) this]
    obtain w' pre where res: "attempts tr key rc rd (a + 1) le1 w1 = Inr (None, w')"
      and cw: "calls w' = calls w1 + nat (rc - (a + 1))"
      and fin: "trace w' = pre @ [Log (L_all_retries_failed
                (if a + 1 < rc then describe (tr (calls w' - 1) (Search key)) else le1))]"
      by blast
    have n: "calls w' = calls w + nat (rc - a)"
      using cw c True "1.prems"(3) by (simp add: nat_diff_distrib)
    show ?thesis
    proof (cases "a + 1 < rc")
      case True
      with unfold res fin n \<open>a < rc\<close> show ?thesis by auto
    next
      case False
      then have na: "\<not> a < rc - 1" by simp
      from False True have "rc - (a + 1) = 0" by simp
      with cw c have "calls w' - 1 = calls w" by simp
      with d [OF na] unfold res fin n False \<open>a < rc\<close> show ?thesis by auto
    qed
  qed
qed

lemma search_404_eval:
  "search_symbols tr_404 None 3 5 w_empty =
     Inr (None, w_empty\<lparr>calls := 3,
            trace := [Get (Search None), Get (Search None), Get (Search None),
                      Log (L_all_retries_failed (Some (HttpError 404 ''Not Found'')))]\<rparr>)"
  by (simp add: search_symbols_def attempts.simps attempt_once_def session_get_def tr_404_def
        w_empty_def logger_def)

lemma search_invalid_eval:
  "search_symbols tr_invalid None 3 5 w_empty =
     Inr (None, w_empty\<lparr>calls := 3,
            trace := [Get (Search None), Get (Search None), Get (Search None),
                      Log (L_all_retries_failed (Some (ApiError ''Invalid query'')))]\<rparr>)"
  by (simp add: search_symbols_def attempts.simps attempt_once_def session_get_def tr_invalid_def
        w_empty_def logger_def)

text \<open>
  C5, as amended. A call exhausts its attempts when every request ends in a failure (an
  error status, an error body, a timeout, a connection error or another exception) and the
  retry delay is a duration, so that no sleep raises. Such a call makes \<open>retry_count\<close>
  requests, raises nothing and returns \<open>None\<close>. The value returned carries no description:
  the description of the last attempt's failure is what the final log line reports.
\<close>

theorem exhausted_search_returns_none:
  assumes "\<forall>n. describe (tr n (Search key)) \<noteq> None" and "0 \<le> retry_delay"
  shows "\<exists>w' pre. search_symbols tr key retry_count retry_delay w = Inr (None, w')
           \<and> calls w' = calls w + nat retry_count
           \<and> trace w' = pre @ [Log (L_all_retries_failed
                (if 0 < retry_count then describe (tr (calls w' - 1) (Search key)) else None))]"
  using attempts_exhaust [of tr key retry_delay 0 retry_count None w] assms
  unfolding search_symbols_def by simp

theorem exhausted_search_returns_none_witness:
  "\<exists>w' pre. search_symbols tr_404 None 3 5 w_empty = Inr (None, w')
      \<and> calls w' = 3
      \<and> trace w' = pre @ [Log (L_all_retries_failed (Some (HttpError 404 ''Not Found'')))]"
proof -
  have h: "\<forall>n. describe (tr_404 n (Search None)) \<noteq> None"
    by (simp add: tr_404_def describe_def)
  from exhausted_search_returns_none [of tr_404 None 5 3 w_empty] h
  show ?thesis by (simp add: tr_404_def describe_def w_empty_def)
qed

text \<open>
  C5, as stated, fails: two calls that exhaust their attempts on different errors, a 503
  and a timeout, return the same value \<open>None\<close>. The returned value carries no error
  description; the two descriptions appear in the log only.
\<close>

theorem failure_value_has_no_description:
  "search_symbols tr_503 None 3 5 w_empty =
     Inr (None, w_empty\<lparr>calls := 3,
            trace := [Get (Search None), Sleep 5, Get (Search None), Sleep 10, Get (Search None),
                      Log (L_all_retries_failed (Some (HttpError 503 ''Service Unavailable'')))]\<rparr>)
   \<and> search_symbols tr_timeout None 3 5 w_empty =
     Inr (None, w_empty\<lparr>calls := 3,
            trace := [Get (Search None), Sleep 5, Get (Search None), Sleep 5, Get (Search None),
                      Log (L_all_retries_failed (Some TimedOut))]\<rparr>)"
  by (simp add: search_symbols_def attempts.simps attempt_once_def session_get_def tr_503_def
        tr_timeout_def sleep_in_try_def sleep_def w_empty_def logger_def)

text \<open>
  C2. On a 404, and on a 200 whose error message is not the backend-database one, the body of
  the retry loop reaches its end without leaving the loop: all three attempts are made,
  back to back.
\<close>

theorem client_errors_are_retried:
  "search_symbols tr_404 None 3 5 w_empty =
     Inr (None, w_empty\<lparr>calls := 3,
            trace := [Get (Search None), Get (Search None), Get (Search None),
                      Log (L_all_retries_failed (Some (HttpError 404 ''Not Found'')))]\<rparr>)
   \<and> search_symbols tr_invalid None 3 5 w_empty =
     Inr (None, w_empty\<lparr>calls := 3,
            trace := [Get (Search None), Get (Search None), Get (Search None),
                      Log (L_all_retries_failed (Some (ApiError ''Invalid query'')))]\<rparr>)"
  using search_404_eval search_invalid_eval by simp

section \<open>The harvest loop and main: evaluations\<close>

text \<open>
  C3. An interrupt during the first request is caught and logged by \<open>main\<close>, but the
  \<^verbatim>\<open>finally\<close> clause then reads the unbound \<^verbatim>\<open>result_df\<close> and \<open>main\<close> ends with
  UnboundLocalError.
\<close>

theorem main_crashes_on_interrupt:
  "main read_csv tr_interrupt None 2 w_empty =
     Inl (UnboundLocalError ''result_df'',
          w_empty\<lparr>calls := 1, trace := [Get Categories, Log L_interrupted]\<rparr>)"
  by (simp add: main_def download_all_symbols_def initial_vars_def get_categories_def
        session_get_def tr_interrupt_def finally_block_def logger_def w_empty_def)

text \<open>
  C1. One page is fetched and checkpointed, then every request times out. The loop stops at
  the third consecutive failure with the checkpoint on disk; the code after the loop then
  writes the merged file and removes the checkpoint, and \<open>main\<close> removes the batch files.
\<close>

theorem abort_merges_and_removes_checkpoint:
  "(case while_true tr_abort 0 (initial_vars read_csv None w_empty)
           (w_empty\<lparr>calls := 1, trace := [Get Categories]\<rparr>) of
      Inl e \<Rightarrow> False
    | Inr ((x, v), w') \<Rightarrow>
        x = TooManyErrors \<and> all_dataframes v = [df_one] \<and> batch_files w' 1 = Some df_one
        \<and> state_file w' = Some (State \<lparr>s_batch = 2, s_next_key = Some ''k1'',
                                        s_total_symbols = 1, s_total_reported = 2\<rparr>))
   \<and> (case download_all_symbols read_csv tr_abort 0 None w_empty of
      Inl e \<Rightarrow> False
    | Inr (r, w') \<Rightarrow>
        r = Some df_one \<and> state_file w' = None \<and> latest_file w' = Some df_one)
   \<and> (case main read_csv tr_abort None 0 w_empty of
      Inl e \<Rightarrow> False
    | Inr (u, w') \<Rightarrow>
        state_file w' = None \<and> latest_file w' = Some df_one \<and> batch_files w' 1 = None)"
  by (simp add: main_def download_all_symbols_def initial_vars_def get_categories_def
        session_get_def finally_block_def logger_def w_empty_def while_true.simps iteration_def handle_failure_def handle_page_def
        search_symbols_def attempts.simps attempt_once_def tr_abort_def sleep_def page_one_def
        save_symbols_batch_def DataFrame_def combine_def pd_concat_def drop_duplicates_def
        cell_def df_one_def split_symbols_by_exchange_and_type_def cleanup_batch_files_def Let_def)

section \<open>Merge and deduplication\<close>

lemma set_add_columns: "set (add_columns cs xs) = set cs \<union> set xs"
  by (induction cs xs rule: add_columns.induct) auto




lemma set_foldl_add_columns: "set (foldl add_columns acc css) = set acc \<union> \<Union> (set ` set css)"
  by (induction css arbitrary: acc) (auto simp: set_add_columns)







lemma set_keep_first_subset: "set (keep_first col seen rs) \<subseteq> set rs"
  by (induction rs arbitrary: seen) auto



section \<open>Termination of the harvest loop\<close>

lemma batch_headers_append: "batch_headers (xs @ ys) = batch_headers xs @ batch_headers ys"
  by (induction xs rule: batch_headers.induct) auto

lemma search_symbols_data:
  assumes "tr (calls w) (Search k) = Response 200 tx (Data p)"
  shows "search_symbols tr k 3 5 w =
           Inr (Some p, w\<lparr>calls := Suc (calls w), trace := trace w @ [Get (Search k)]\<rparr>)"
  using assms
  by (simp add: search_symbols_def attempts.simps attempt_once_def session_get_def)

lemma iteration_all_data:
  assumes "\<forall>n k. \<exists>tx p. tr n (Search k) = Response 200 tx (Data p)" and "0 \<le> delay"
  shows "\<exists>st w1 new. iteration tr delay v w = Inr (st, w1) \<and> trace w1 = trace w @ new
           \<and> batch_headers new = [batch v]
           \<and> (case st of
                 Break x v1 \<Rightarrow> x \<noteq> TooManyErrors \<and> (x = SafetyLimit \<longrightarrow> 1000 < batch v1)
                                \<and> batch v1 \<le> batch v + 1
               | Again v1 \<Rightarrow> batch v1 = batch v + 1 \<and> batch v1 \<le> 1000)"
proof -
  let ?w0 = "logger (L_batch (batch v)) w"
  let ?w1 = "if batch v > 1 then ?w0\<lparr>trace := trace ?w0 @ [Sleep delay]\<rparr> else ?w0"
  from assms(1) obtain tx p
    where d: "tr (calls ?w1) (Search (next_key v)) = Response 200 tx (Data p)"
    by blast
  from search_symbols_data [of tr ?w1 "next_key v" tx p] d
  have s: "search_symbols tr (next_key v) 3 5 ?w1 =
             Inr (Some p, ?w1\<lparr>calls := Suc (calls ?w1),
                              trace := trace ?w1 @ [Get (Search (next_key v))]\<rparr>)"
    by blast
  show ?thesis
    using assms(2) s
    by (auto simp: iteration_def handle_page_def Let_def sleep_def logger_def save_symbols_batch_def
          split: if_splits)
qed

text \<open>
  C7. When every page request is answered with a page and the inter-page delay is
  non-negative, the harvest loop returns, and it leaves through one of the three
  end-of-data exits, never through the too-many-errors exit. Each pass logs one batch
  header; a run that starts at batch 1 makes at most 1000 passes. The safety-limit exit is
  taken only with a batch number above 1000, and it is an ordinary end of the loop.
\<close>

theorem harvest_loop_terminates_done:
  assumes "\<forall>n k. \<exists>tx p. tr n (Search k) = Response 200 tx (Data p)" and "0 \<le> delay"
  shows "\<exists>x v' w' new. while_true tr delay v w = Inr ((x, v'), w')
           \<and> (x = NoSymbols \<or> x = EndOfData \<or> x = SafetyLimit)
           \<and> trace w' = trace w @ new
           \<and> length (batch_headers new) \<le> nat (max 1 (1001 - batch v))
           \<and> (x = SafetyLimit \<longrightarrow> 1000 < batch v')
           \<and> (batch v \<le> 1000 \<longrightarrow> batch v' \<le> 1001)"
  using assms
proof (induction tr delay v w rule: while_true.induct)
  case (1 tr delay v w)
  from iteration_all_data [OF "1.prems", of v w]
  obtain st w1 new1 where it: "iteration tr delay v w = Inr (st, w1)"
    and t1: "trace w1 = trace w @ new1" and h1: "batch_headers new1 = [batch v]"
    and c: "case st of
              Break x v1 \<Rightarrow> x \<noteq> TooManyErrors \<and> (x = SafetyLimit \<longrightarrow> 1000 < batch v1)
                             \<and> batch v1 \<le> batch v + 1
            | Again v1 \<Rightarrow> batch v1 = batch v + 1 \<and> batch v1 \<le> 1000"
    by blast
  show ?case
  proof (cases st)
    case (Break x v1)
    with it have r: "while_true tr delay v w = Inr ((x, v1), w1)"
      by (subst while_true.simps) simp
    from c Break have "x = NoSymbols \<or> x = EndOfData \<or> x = SafetyLimit"
      by (cases x) simp_all
    with r t1 h1 c Break show ?thesis by auto
  next
    case (Again v1)
    with it have r: "while_true tr delay v w = while_true tr delay v1 w1"
      by (subst while_true.simps) simp
    from c Again have b: "batch v1 = batch v + 1" "batch v1 \<le> 1000" by simp_all
    from "1.IH" [OF it [unfolded Again] refl refl "1.prems"]
    obtain x v' w' new where res: "while_true tr delay v1 w1 = Inr ((x, v'), w')"
      and x: "x = NoSymbols \<or> x = EndOfData \<or> x = SafetyLimit"
      and t: "trace w' = trace w1 @ new"
      and n: "length (batch_headers new) \<le> nat (max 1 (1001 - batch v1))"
      and s: "x = SafetyLimit \<longrightarrow> 1000 < batch v'"
      and le: "batch v1 \<le> 1000 \<longrightarrow> batch v' \<le> 1001"
      by blast
    have "trace w' = trace w @ (new1 @ new)" using t t1 by simp
    moreover have "length (batch_headers (new1 @ new)) \<le> nat (max 1 (1001 - batch v))"
      using n h1 b by (simp add: batch_headers_append)
    ultimately show ?thesis
      using r res x s le b by (intro exI [of _ x] exI [of _ v'] exI [of _ w']
          exI [of _ "new1 @ new"]) simp
  qed
qed

theorem harvest_loop_terminates_done_witness:
  "\<exists>x v' w' new. while_true tr_two_pages 0 (initial_vars read_csv_na None w_empty) w_empty = Inr ((x, v'), w')
     \<and> (x = NoSymbols \<or> x = EndOfData \<or> x = SafetyLimit)
     \<and> trace w' = trace w_empty @ new
     \<and> length (batch_headers new) \<le> 1000"
proof -
  have h: "\<forall>n k. \<exists>tx p. tr_two_pages n (Search k) = Response 200 tx (Data p)"
    by (simp add: tr_two_pages_def split: option.splits)
  have b: "batch (initial_vars read_csv_na None w_empty) = 1"
    by (simp add: initial_vars_def)
  from harvest_loop_terminates_done [OF h, of 0 "initial_vars read_csv_na None w_empty" w_empty] b
  show ?thesis
    by auto
qed

section \<open>Partition by exchange and security type\<close>

lemma split_sep_no_sep: "CHR ''/'' \<notin> set a \<Longrightarrow> split_sep a = [a]"
  by (induction a) auto

lemma split_sep_append:
  "CHR ''/'' \<notin> set a \<Longrightarrow> split_sep (a @ CHR ''/'' # b) = a # split_sep b"
  by (induction a) auto

lemma csv_name_not_special:
  "t @ ''.csv'' \<noteq> []" "t @ ''.csv'' \<noteq> ''.''" "t @ ''.csv'' \<noteq> ''..''"
proof -
  have "length (t @ ''.csv'') \<ge> 4" by simp
  then show "t @ ''.csv'' \<noteq> []" "t @ ''.csv'' \<noteq> ''.''" "t @ ''.csv'' \<noteq> ''..''"
    by (auto dest: arg_cong [where f = length])
qed

lemma exchange_dir_string:
  assumes "safe_component e"
  shows "os_path_join (os_path_join output_dir ''by_exchange'') e
           = ''dtn_symbols/by_exchange/'' @ e"
proof -
  from assms have "e \<noteq> []" "CHR ''/'' \<notin> set e" by (simp_all add: safe_component_def)
  then have "hd e \<noteq> CHR ''/''" by (cases e) auto
  with \<open>e \<noteq> []\<close> show ?thesis by (simp add: os_path_join_def output_dir_def)
qed

lemma split_path_string:
  assumes "safe_component e" "CHR ''/'' \<notin> set t"
  shows "split_path e t = ''dtn_symbols/by_exchange/'' @ e @ ''/'' @ t @ ''.csv''"
proof -
  from assms have e: "e \<noteq> []" "CHR ''/'' \<notin> set e" by (simp_all add: safe_component_def)
  then have l: "last e \<noteq> CHR ''/''" using last_in_set by metis
  have h: "hd (t @ ''.csv'') \<noteq> CHR ''/''" using assms(2) by (cases t) auto
  have "last (''dtn_symbols/by_exchange/'' @ e) \<noteq> CHR ''/''" using e l by simp
  with h e show ?thesis
    unfolding split_path_def exchange_dir_string [OF assms(1)]
    by (simp add: os_path_join_def)
qed

lemma normpath_exchange_dir:
  assumes "safe_component e"
  shows "normpath (''dtn_symbols/by_exchange/'' @ e) = (False, [output_dir, ''by_exchange'', e])"
proof -
  from assms have e: "e \<noteq> []" "e \<noteq> ''.''" "e \<noteq> ''..''" "CHR ''/'' \<notin> set e"
    by (simp_all add: safe_component_def)
  have "split_sep (''dtn_symbols/by_exchange/'' @ e) = [''dtn_symbols'', ''by_exchange'', e]"
    using split_sep_no_sep [OF e(4)] by simp
  with e show ?thesis by (simp add: normpath_def output_dir_def)
qed

lemma normpath_split_path:
  assumes "safe_component e" "CHR ''/'' \<notin> set t"
  shows "normpath (split_path e t) = named_path e t"
proof -
  from assms have e: "e \<noteq> []" "e \<noteq> ''.''" "e \<noteq> ''..''" "CHR ''/'' \<notin> set e"
    by (simp_all add: safe_component_def)
  have t: "CHR ''/'' \<notin> set (t @ ''.csv'')" using assms(2) by simp
  have "split_sep (''dtn_symbols/by_exchange/'' @ e @ ''/'' @ t @ ''.csv'')
          = [''dtn_symbols'', ''by_exchange'', e, t @ ''.csv'']"
    using split_sep_append [OF e(4), of "t @ ''.csv''"] split_sep_no_sep [OF t] by simp
  with e csv_name_not_special [of t] show ?thesis
    unfolding split_path_string [OF assms]
    by (simp add: normpath_def named_path_def output_dir_def)
qed

lemma makedirs_exchange_dir:
  assumes "safe_component e"
  shows "(False, [output_dir, ''by_exchange'', e])
           \<in> dirs (makedirs (os_path_join (os_path_join output_dir ''by_exchange'') e) w)"
    and "split_files (makedirs (os_path_join (os_path_join output_dir ''by_exchange'') e) w)
           = split_files w"
    and "\<exists>D. makedirs (os_path_join (os_path_join output_dir ''by_exchange'') e) w = w\<lparr>dirs := D\<rparr>"
  unfolding exchange_dir_string [OF assms] makedirs_def normpath_exchange_dir [OF assms]
  by simp_all (rule exI, rule refl)

lemma write_group_safe:
  assumes "(False, [output_dir, ''by_exchange'', e]) \<in> dirs w" "safe_component e"
    "CHR ''/'' \<notin> set (fst h)"
  shows "write_group (os_path_join (os_path_join output_dir ''by_exchange'') e) w h
           = Inr (w\<lparr>split_files := put_file (split_files w) (named_path e (fst h), snd h)\<rparr>)"
proof -
  have "os_path_join (os_path_join (os_path_join output_dir ''by_exchange'') e) (fst h @ ''.csv'')
          = split_path e (fst h)"
    by (simp add: split_path_def)
  then show ?thesis
    using assms(1)
    unfolding write_group_def Let_def to_csv_def
    by (simp add: normpath_split_path [OF assms(2,3)] named_path_def put_file_def)
qed

lemma for_each_write_group:
  assumes "(False, [output_dir, ''by_exchange'', e]) \<in> dirs w" "safe_component e"
    "\<forall>h \<in> set gs. CHR ''/'' \<notin> set (fst h)"
  shows "for_each (write_group (os_path_join (os_path_join output_dir ''by_exchange'') e)) w gs
           = Inr (w\<lparr>split_files := foldl put_file (split_files w)
                                      (map (\<lambda>h. (named_path e (fst h), snd h)) gs)\<rparr>)"
  using assms
proof (induction gs arbitrary: w)
  case Nil
  then show ?case by simp
next
  case (Cons h gs)
  let ?w1 = "w\<lparr>split_files := put_file (split_files w) (named_path e (fst h), snd h)\<rparr>"
  from Cons.prems have h: "CHR ''/'' \<notin> set (fst h)" by simp
  have s: "write_group (os_path_join (os_path_join output_dir ''by_exchange'') e) w h = Inr ?w1"
    by (rule write_group_safe [OF Cons.prems(1,2) h])
  have d: "(False, [output_dir, ''by_exchange'', e]) \<in> dirs ?w1" using Cons.prems(1) by simp
  from Cons.prems(3) have r: "\<forall>h \<in> set gs. CHR ''/'' \<notin> set (fst h)" by simp
  show ?case
    unfolding for_each.simps s sum.case Cons.IH [OF d Cons.prems(2) r]
    by simp
qed

lemma set_map_filter_cell:
  "set (List.map_filter f xs) = {y. \<exists>x \<in> set xs. f x = Some y}"
  by (induction xs) (auto split: option.splits)

lemma set_groupby:
  "set (groupby col df) =
     {(k, df\<lparr>rows := filter (\<lambda>r. cell r col = Some k) (rows df)\<rparr>) | k.
        \<exists>r \<in> set (rows df). cell r col = Some k}"
  by (auto simp: groupby_def set_map_filter_cell)

lemma foldl_put_file_snoc:
  "foldl put_file m (kvs @ [kv]) p =
     (if p = fst kv then Some (snd kv) else foldl put_file m kvs p)"
  unfolding put_file_def by simp

lemma foldl_upd_lookup:
  "foldl put_file m kvs p = Some d \<Longrightarrow> m p = Some d \<or> (p, d) \<in> set kvs"
proof (induction kvs rule: rev_induct)
  case Nil
  then show ?case by simp
next
  case (snoc kv kvs)
  show ?case
  proof (cases "p = fst kv")
    case True
    with snoc.prems have "d = snd kv" unfolding foldl_put_file_snoc by simp
    with True have "(p, d) = kv" by simp
    then show ?thesis by simp
  next
    case False
    with snoc.prems have "foldl put_file m kvs p = Some d"
      unfolding foldl_put_file_snoc by simp
    from snoc.IH [OF this] show ?thesis by auto
  qed
qed

lemma foldl_upd_written:
  "(p, d) \<in> set kvs \<Longrightarrow> \<forall>d'. (p, d') \<in> set kvs \<longrightarrow> d' = d
     \<Longrightarrow> foldl put_file m kvs p = Some d"
proof (induction kvs rule: rev_induct)
  case Nil
  then show ?case by simp
next
  case (snoc kv kvs)
  show ?case
  proof (cases "p = fst kv")
    case True
    then have "(p, snd kv) \<in> set (kvs @ [kv])" by simp
    with snoc.prems(2) have "snd kv = d" by blast
    with True show ?thesis unfolding foldl_put_file_snoc by simp
  next
    case False
    with snoc.prems(1) have m: "(p, d) \<in> set kvs" by auto
    from snoc.prems(2) have u: "\<forall>d'. (p, d') \<in> set kvs \<longrightarrow> d' = d" by simp
    from snoc.IH [OF m u] False show ?thesis unfolding foldl_put_file_snoc by simp
  qed
qed

lemma filter_filter_cells:
  "filter (\<lambda>r. cell r c2 = Some t) (filter (\<lambda>r. cell r c1 = Some e) rs)
     = filter (\<lambda>r. cell r c1 = Some e \<and> cell r c2 = Some t) rs"
  by (induction rs) auto

lemma named_path_inject: "named_path e t = named_path e' t' \<longleftrightarrow> e = e' \<and> t = t'"
  by (simp add: named_path_def)

lemma in_groupby:
  "(k, d) \<in> set (groupby col df) \<longleftrightarrow>
     d = df\<lparr>rows := filter (\<lambda>r. cell r col = Some k) (rows df)\<rparr>
     \<and> (\<exists>r \<in> set (rows df). cell r col = Some k)"
  unfolding set_groupby by blast

lemma in_files_of_iff:
  "(p, d) \<in> set (files_of egs) \<longleftrightarrow>
     (\<exists>g \<in> set egs. \<exists>h \<in> set (groupby ''securityType'' (snd g)).
        p = named_path (fst g) (fst h) \<and> d = snd h)"
  unfolding files_of_def by auto

lemma in_files_of:
  "(p, d) \<in> set (files_of (groupby ''exchange'' df)) \<longleftrightarrow>
     (\<exists>e t. p = named_path e t
        \<and> d = df\<lparr>rows := filter (\<lambda>r. cell r ''exchange'' = Some e
                                   \<and> cell r ''securityType'' = Some t) (rows df)\<rparr>
        \<and> (\<exists>r \<in> set (rows df). cell r ''exchange'' = Some e
                                   \<and> cell r ''securityType'' = Some t))"
  (is "?L \<longleftrightarrow> ?R")
proof
  assume ?L
  then obtain g h where g: "g \<in> set (groupby ''exchange'' df)"
    and h: "h \<in> set (groupby ''securityType'' (snd g))"
    and pd: "p = named_path (fst g) (fst h)" "d = snd h"
    unfolding in_files_of_iff by blast
  obtain e ge where ge: "g = (e, ge)" by (cases g)
  obtain t hd where hd: "h = (t, hd)" by (cases h)
  from g ge have ge': "ge = df\<lparr>rows := filter (\<lambda>r. cell r ''exchange'' = Some e) (rows df)\<rparr>"
    by (simp add: in_groupby)
  from h ge hd have "(t, hd) \<in> set (groupby ''securityType'' ge)" by simp
  then have hd': "hd = ge\<lparr>rows := filter (\<lambda>r. cell r ''securityType'' = Some t) (rows ge)\<rparr>"
    and ex: "\<exists>r \<in> set (rows ge). cell r ''securityType'' = Some t"
    by (simp_all add: in_groupby)
  from ex obtain r where "r \<in> set (rows ge)" "cell r ''securityType'' = Some t" by blast
  with ge' have r: "r \<in> set (rows df)" "cell r ''exchange'' = Some e"
    "cell r ''securityType'' = Some t" by simp_all
  have "hd = df\<lparr>rows := filter (\<lambda>r. cell r ''exchange'' = Some e
                                   \<and> cell r ''securityType'' = Some t) (rows df)\<rparr>"
    unfolding hd' ge' by (simp add: filter_filter_cells)
  with pd ge hd r show ?R by auto
next
  assume ?R
  then obtain e t r where p: "p = named_path e t"
    and d: "d = df\<lparr>rows := filter (\<lambda>r. cell r ''exchange'' = Some e
                                   \<and> cell r ''securityType'' = Some t) (rows df)\<rparr>"
    and r: "r \<in> set (rows df)" "cell r ''exchange'' = Some e" "cell r ''securityType'' = Some t"
    by blast
  let ?ge = "df\<lparr>rows := filter (\<lambda>r. cell r ''exchange'' = Some e) (rows df)\<rparr>"
  have g: "(e, ?ge) \<in> set (groupby ''exchange'' df)"
    using r by (subst in_groupby) blast
  have "d = ?ge\<lparr>rows := filter (\<lambda>r. cell r ''securityType'' = Some t) (rows ?ge)\<rparr>"
    unfolding d by (simp add: filter_filter_cells)
  moreover have "r \<in> set (rows ?ge)" using r by simp
  ultimately have h: "(t, d) \<in> set (groupby ''securityType'' ?ge)"
    using r(3) by (subst in_groupby) blast
  from g h have "\<exists>g \<in> set (groupby ''exchange'' df).
                   \<exists>h \<in> set (groupby ''securityType'' (snd g)).
                     named_path e t = named_path (fst g) (fst h) \<and> d = snd h"
    by (intro bexI [of _ "(e, ?ge)"] bexI [of _ "(t, d)"]) simp_all
  then show ?L
    unfolding in_files_of_iff p .
qed

lemma makedirs_dirs: "\<exists>D. makedirs s w = w\<lparr>dirs := D\<rparr>"
  unfolding makedirs_def by (cases "normpath s") (simp, rule exI, rule refl)

lemma files_of_Cons:
  "files_of (g # egs) =
     map (\<lambda>h. (named_path (fst g) (fst h), snd h)) (groupby ''securityType'' (snd g))
       @ files_of egs"
  by (simp add: files_of_def)

lemma write_exchange_safe:
  assumes "safe_component (fst g)"
    "\<forall>h \<in> set (groupby ''securityType'' (snd g)). CHR ''/'' \<notin> set (fst h)"
  shows "\<exists>D. write_exchange (os_path_join output_dir ''by_exchange'') w g
           = Inr (w\<lparr>dirs := D, split_files := foldl put_file (split_files w)
                    (map (\<lambda>h. (named_path (fst g) (fst h), snd h))
                       (groupby ''securityType'' (snd g)))\<rparr>)"
proof -
  let ?dir = "os_path_join (os_path_join output_dir ''by_exchange'') (fst g)"
  from makedirs_exchange_dir(3) [OF assms(1), of w]
  obtain D where m: "makedirs ?dir w = w\<lparr>dirs := D\<rparr>" by blast
  from makedirs_exchange_dir(1) [OF assms(1), of w] m
  have d: "(False, [output_dir, ''by_exchange'', fst g]) \<in> dirs (w\<lparr>dirs := D\<rparr>)" by simp
  have "write_exchange (os_path_join output_dir ''by_exchange'') w g
          = for_each (write_group ?dir) (w\<lparr>dirs := D\<rparr>) (groupby ''securityType'' (snd g))"
    unfolding write_exchange_def Let_def m ..
  also have "\<dots> = Inr (w\<lparr>dirs := D, split_files := foldl put_file (split_files w)
                    (map (\<lambda>h. (named_path (fst g) (fst h), snd h))
                       (groupby ''securityType'' (snd g)))\<rparr>)"
    unfolding for_each_write_group [OF d assms] by simp
  finally show ?thesis by (rule exI)
qed

lemma for_each_write_exchange:
  assumes "\<forall>g \<in> set egs. safe_component (fst g)
             \<and> (\<forall>h \<in> set (groupby ''securityType'' (snd g)). CHR ''/'' \<notin> set (fst h))"
  shows "\<exists>D. for_each (write_exchange (os_path_join output_dir ''by_exchange'')) w egs
           = Inr (w\<lparr>dirs := D,
                    split_files := foldl put_file (split_files w) (files_of egs)\<rparr>)"
  using assms
proof (induction egs arbitrary: w)
  case Nil
  have "w = w\<lparr>dirs := dirs w, split_files := split_files w\<rparr>" by simp
  then have "for_each (write_exchange (os_path_join output_dir ''by_exchange'')) w []
          = Inr (w\<lparr>dirs := dirs w, split_files := foldl put_file (split_files w) (files_of [])\<rparr>)"
    by (simp add: files_of_def)
  then show ?case by (rule exI)
next
  case (Cons g egs)
  let ?fs = "map (\<lambda>h. (named_path (fst g) (fst h), snd h)) (groupby ''securityType'' (snd g))"
  from Cons.prems have g: "safe_component (fst g)"
    "\<forall>h \<in> set (groupby ''securityType'' (snd g)). CHR ''/'' \<notin> set (fst h)" by simp_all
  from write_exchange_safe [OF g, of w]
  obtain D1 where s: "write_exchange (os_path_join output_dir ''by_exchange'') w g
      = Inr (w\<lparr>dirs := D1, split_files := foldl put_file (split_files w) ?fs\<rparr>)"
    by blast
  let ?w1 = "w\<lparr>dirs := D1, split_files := foldl put_file (split_files w) ?fs\<rparr>"
  from Cons.prems have r: "\<forall>g \<in> set egs. safe_component (fst g)
             \<and> (\<forall>h \<in> set (groupby ''securityType'' (snd g)). CHR ''/'' \<notin> set (fst h))"
    by simp
  from Cons.IH [OF r, of ?w1]
  obtain D where i: "for_each (write_exchange (os_path_join output_dir ''by_exchange'')) ?w1 egs
      = Inr (?w1\<lparr>dirs := D,
               split_files := foldl put_file (split_files ?w1) (files_of egs)\<rparr>)"
    by blast
  have "for_each (write_exchange (os_path_join output_dir ''by_exchange'')) w (g # egs)
          = Inr (w\<lparr>dirs := D, split_files := foldl put_file (split_files w) (files_of (g # egs))\<rparr>)"
    unfolding for_each.simps s sum.case i files_of_Cons foldl_append by simp
  then show ?case by (rule exI)
qed

lemma path_safe_groups:
  assumes "path_safe df" "g \<in> set (groupby ''exchange'' df)"
  shows "safe_component (fst g)"
    and "\<forall>h \<in> set (groupby ''securityType'' (snd g)). CHR ''/'' \<notin> set (fst h)"
proof -
  obtain e ge where ge: "g = (e, ge)" by (cases g)
  with assms(2) have ge': "ge = df\<lparr>rows := filter (\<lambda>r. cell r ''exchange'' = Some e) (rows df)\<rparr>"
    and ex: "\<exists>r \<in> set (rows df). cell r ''exchange'' = Some e"
    by (simp_all add: in_groupby)
  from ex assms(1) show "safe_component (fst g)"
    unfolding ge path_safe_def list_all_iff by fastforce
  show "\<forall>h \<in> set (groupby ''securityType'' (snd g)). CHR ''/'' \<notin> set (fst h)"
  proof
    fix h assume h: "h \<in> set (groupby ''securityType'' (snd g))"
    obtain t hd where hd: "h = (t, hd)" by (cases h)
    with h ge have "\<exists>r \<in> set (rows ge). cell r ''securityType'' = Some t"
      by (simp add: in_groupby)
    then obtain r where "r \<in> set (rows df)" "cell r ''securityType'' = Some t"
      unfolding ge' by auto
    with assms(1) show "CHR ''/'' \<notin> set (fst h)"
      unfolding hd path_safe_def list_all_iff by fastforce
  qed
qed

lemma split_result:
  assumes "''exchange'' \<in> set (columns df)" "''securityType'' \<in> set (columns df)"
    and "path_safe df"
  shows "\<exists>D. split_symbols_by_exchange_and_type (Some df) w =
           Inr (w\<lparr>dirs := D,
                  split_files := foldl put_file (split_files w)
                                   (files_of (groupby ''exchange'' df))\<rparr>)"
proof -
  from makedirs_dirs [of "os_path_join output_dir ''by_exchange''" w]
  obtain D0 where m: "makedirs (os_path_join output_dir ''by_exchange'') w = w\<lparr>dirs := D0\<rparr>"
    by blast
  have s: "\<forall>g \<in> set (groupby ''exchange'' df). safe_component (fst g)
             \<and> (\<forall>h \<in> set (groupby ''securityType'' (snd g)). CHR ''/'' \<notin> set (fst h))"
    using path_safe_groups [OF assms(3)] by blast
  from for_each_write_exchange [OF s, of "w\<lparr>dirs := D0\<rparr>"]
  obtain D where "for_each (write_exchange (os_path_join output_dir ''by_exchange''))
       (w\<lparr>dirs := D0\<rparr>) (groupby ''exchange'' df)
      = Inr (w\<lparr>dirs := D, split_files := foldl put_file (split_files w)
                                   (files_of (groupby ''exchange'' df))\<rparr>)"
    by auto
  with assms(1,2) m have "split_symbols_by_exchange_and_type (Some df) w =
           Inr (w\<lparr>dirs := D,
                  split_files := foldl put_file (split_files w)
                                   (files_of (groupby ''exchange'' df))\<rparr>)"
    unfolding split_symbols_by_exchange_and_type_def Let_def by simp
  then show ?thesis by (rule exI)
qed

lemma distinct_map_filter_rows:
  "distinct (map f rs) \<Longrightarrow> distinct (map f (filter P rs))"
  by (induction rs) auto

lemma foldl_invariant:
  assumes "I s" and "\<And>s x. I s \<Longrightarrow> x \<in> set xs \<Longrightarrow> I (f s x)"
  shows "I (foldl f s xs)"
  using assms by (induction xs arbitrary: s) auto

lemma store_group_matches:
  assumes "redis_matches (snd st)"
    and "\<forall>r \<in> set (rows (snd g)). cell r ''exchange'' = Some e
                                   \<and> cell r ''securityType'' = Some (fst g)"
  shows "redis_matches (snd (store_group e st g))"
proof -
  have k: "''symbols:'' @ e @ '':'' @ fst g = redis_key e (fst g)" by (simp add: redis_key_def)
  show ?thesis
    unfolding redis_matches_def store_group_def Let_def k
  proof (intro allI impI)
    fix k' rs
    assume a: "snd (fst st + length (rows (snd g)), (snd st)(redis_key e (fst g) \<mapsto> rows (snd g))) k'
                 = Some rs"
    show "\<exists>e' t. k' = redis_key e' t
            \<and> (\<forall>r \<in> set rs. cell r ''exchange'' = Some e' \<and> cell r ''securityType'' = Some t)"
    proof (cases "k' = redis_key e (fst g)")
      case True
      with a have "rs = rows (snd g)" by simp
      with assms(2) True show ?thesis by blast
    next
      case False
      with a have "snd st k' = Some rs" by simp
      with assms(1) show ?thesis unfolding redis_matches_def by blast
    qed
  qed
qed

lemma store_file_matches:
  assumes "redis_matches (snd st)"
  shows "redis_matches (snd (store_file e st df))"
proof -
  let ?f = "df\<lparr>rows := filter (\<lambda>r. cell r ''exchange'' = Some e) (rows df)\<rparr>"
  have "redis_matches (snd (foldl (store_group e) st (groupby ''securityType'' ?f)))"
  proof (rule foldl_invariant [where I = "\<lambda>s. redis_matches (snd s)"])
    show "redis_matches (snd st)" by fact
  next
    fix s :: "nat \<times> redis" and g
    assume s: "redis_matches (snd s)" and g: "g \<in> set (groupby ''securityType'' ?f)"
    obtain t gd where tg: "g = (t, gd)" by (cases g)
    with g have "gd = ?f\<lparr>rows := filter (\<lambda>r. cell r ''securityType'' = Some t) (rows ?f)\<rparr>"
      by (simp add: in_groupby)
    then have "\<forall>r \<in> set (rows (snd g)). cell r ''exchange'' = Some e
                 \<and> cell r ''securityType'' = Some (fst g)"
      using tg by simp
    with s show "redis_matches (snd (store_group e s g))"
      by (rule store_group_matches)
  qed
  with assms show ?thesis unfolding store_file_def Let_def by simp
qed

lemma process_matches:
  assumes "redis_matches redis_client"
  shows "redis_matches (snd (process_and_store_symbols tree redis_client target_exchanges))"
  unfolding process_and_store_symbols_def
proof (rule foldl_invariant [where I = "\<lambda>s. redis_matches (snd s)"])
  show "redis_matches (snd (0, redis_client))" using assms by simp
next
  fix s :: "nat \<times> redis" and x
  assume s: "redis_matches (snd s)"
  show "redis_matches (snd (case tree x of None \<Rightarrow> s
                            | Some csv_files \<Rightarrow> foldl (store_file x) s csv_files))"
  proof (cases "tree x")
    case None
    with s show ?thesis by simp
  next
    case (Some csv_files)
    have "redis_matches (snd (foldl (store_file x) s csv_files))"
    proof (rule foldl_invariant [where I = "\<lambda>s. redis_matches (snd s)"])
      show "redis_matches (snd s)" by fact
    next
      fix s' :: "nat \<times> redis" and df
      assume "redis_matches (snd s')"
      then show "redis_matches (snd (store_file x s' df))" by (rule store_file_matches)
    qed
    with Some show ?thesis by simp
  qed
qed

text \<open>
  C9, as amended. For a table with the \<^verbatim>\<open>exchange\<close> and \<^verbatim>\<open>securityType\<close> columns whose
  exchange values are single path components and whose security types hold no slash, the
  partition step raises nothing, and every pair of values that occurs in a row gets the file
  \<^verbatim>\<open>dtn_symbols/by_exchange/<exchange>/<securityType>.csv\<close>, holding exactly the rows with
  that exchange and that type; every file the step writes is such a file, and it has no
  duplicate symbol when the table has none (as the merged table has). The consumer stores
  under each key only records of an exchange and a type that the key names.
\<close>

theorem partition_files_match_path:
  assumes "''exchange'' \<in> set (columns df)" and "''securityType'' \<in> set (columns df)"
    and "path_safe df"
    and "distinct (map (\<lambda>r. cell r ''symbol'') (rows df))"
    and "redis_matches redis_client"
  shows "\<exists>w'. split_symbols_by_exchange_and_type (Some df) w = Inr w'
       \<and> (\<forall>r \<in> set (rows df). \<forall>e t.
            cell r ''exchange'' = Some e \<and> cell r ''securityType'' = Some t \<longrightarrow>
            split_path e t = ''dtn_symbols/by_exchange/'' @ e @ ''/'' @ t @ ''.csv''
            \<and> split_files w' (normpath (split_path e t))
                = Some (df\<lparr>rows := filter (\<lambda>r. cell r ''exchange'' = Some e
                                     \<and> cell r ''securityType'' = Some t) (rows df)\<rparr>))
       \<and> (\<forall>p d. split_files w' p = Some d \<longrightarrow>
            split_files w p = Some d
            \<or> (\<exists>e t. p = normpath (split_path e t) \<and> rows d \<noteq> []
                  \<and> rows d = filter (\<lambda>r. cell r ''exchange'' = Some e
                                     \<and> cell r ''securityType'' = Some t) (rows df)
                  \<and> (\<forall>r \<in> set (rows d). cell r ''exchange'' = Some e
                                     \<and> cell r ''securityType'' = Some t)
                  \<and> distinct (map (\<lambda>r. cell r ''symbol'') (rows d))))
       \<and> redis_matches (snd (process_and_store_symbols tree redis_client target_exchanges))"
proof -
  from split_result [OF assms(1,2,3), of w]
  obtain D where res: "split_symbols_by_exchange_and_type (Some df) w =
           Inr (w\<lparr>dirs := D,
                  split_files := foldl put_file (split_files w)
                                   (files_of (groupby ''exchange'' df))\<rparr>)"
    by blast
  let ?w' = "w\<lparr>dirs := D, split_files := foldl put_file (split_files w)
                                   (files_of (groupby ''exchange'' df))\<rparr>"
  have safe: "safe_component e \<and> CHR ''/'' \<notin> set t"
    if "r \<in> set (rows df)" "cell r ''exchange'' = Some e" "cell r ''securityType'' = Some t"
    for r e t
    using assms(3) that unfolding path_safe_def list_all_iff by fastforce
  have one: "split_path e t = ''dtn_symbols/by_exchange/'' @ e @ ''/'' @ t @ ''.csv''
            \<and> split_files ?w' (normpath (split_path e t))
                = Some (df\<lparr>rows := filter (\<lambda>r. cell r ''exchange'' = Some e
                                     \<and> cell r ''securityType'' = Some t) (rows df)\<rparr>)"
    if r: "r \<in> set (rows df)"
      and c: "cell r ''exchange'' = Some e \<and> cell r ''securityType'' = Some t"
    for r e t
  proof -
    let ?d = "df\<lparr>rows := filter (\<lambda>r. cell r ''exchange'' = Some e
                                     \<and> cell r ''securityType'' = Some t) (rows df)\<rparr>"
    from safe [OF r] c have s: "safe_component e" "CHR ''/'' \<notin> set t" by simp_all
    have m: "(named_path e t, ?d) \<in> set (files_of (groupby ''exchange'' df))"
      using r c by (subst in_files_of) blast
    have u: "\<forall>d'. (named_path e t, d') \<in> set (files_of (groupby ''exchange'' df)) \<longrightarrow> d' = ?d"
      unfolding in_files_of by (auto simp: named_path_inject)
    from foldl_upd_written [OF m u, of "split_files w"]
    have "split_files ?w' (normpath (split_path e t)) = Some ?d"
      by (simp add: normpath_split_path [OF s])
    with split_path_string [OF s] show ?thesis by simp
  qed
  have two: "split_files w p = Some d
        \<or> (\<exists>e t. p = normpath (split_path e t) \<and> rows d \<noteq> []
              \<and> rows d = filter (\<lambda>r. cell r ''exchange'' = Some e
                                 \<and> cell r ''securityType'' = Some t) (rows df)
              \<and> (\<forall>r \<in> set (rows d). cell r ''exchange'' = Some e
                                 \<and> cell r ''securityType'' = Some t)
              \<and> distinct (map (\<lambda>r. cell r ''symbol'') (rows d)))"
    if "split_files ?w' p = Some d" for p d
  proof -
    from that have "foldl put_file (split_files w) (files_of (groupby ''exchange'' df)) p = Some d"
      by simp
    from foldl_upd_lookup [OF this] show ?thesis
    proof
      assume "split_files w p = Some d"
      then show ?thesis by simp
    next
      assume "(p, d) \<in> set (files_of (groupby ''exchange'' df))"
      then obtain e t r where p: "p = named_path e t"
        and d: "d = df\<lparr>rows := filter (\<lambda>r. cell r ''exchange'' = Some e
                                     \<and> cell r ''securityType'' = Some t) (rows df)\<rparr>"
        and r: "r \<in> set (rows df)" "cell r ''exchange'' = Some e"
          "cell r ''securityType'' = Some t"
        unfolding in_files_of by blast
      from safe [OF r] have "normpath (split_path e t) = named_path e t"
        by (simp add: normpath_split_path)
      with p have "p = normpath (split_path e t)" by simp
      moreover from d r have "rows d \<noteq> []"
        by (auto simp: filter_empty_conv)
      moreover from d assms(4) have "distinct (map (\<lambda>r. cell r ''symbol'') (rows d))"
        by (simp add: distinct_map_filter_rows)
      moreover from d have "rows d = filter (\<lambda>r. cell r ''exchange'' = Some e
                                 \<and> cell r ''securityType'' = Some t) (rows df)" by simp
      ultimately show ?thesis by auto
    qed
  qed
  have three: "redis_matches (snd (process_and_store_symbols tree redis_client target_exchanges))"
    by (rule process_matches [OF assms(5)])
  from res one two three show ?thesis by blast
qed

theorem partition_files_match_path_witness:
  "(\<exists>w'. split_symbols_by_exchange_and_type (Some df_two) w_empty = Inr w'
      \<and> split_files w' (normpath ''dtn_symbols/by_exchange/NYSE/EQUITY.csv'')
          = Some (df_two\<lparr>rows := [row_a]\<rparr>))
   \<and> snd (process_and_store_symbols tree_one Map.empty [''NYSE'', ''CME''])
       ''symbols:NYSE:EQUITY'' = Some [row_a]"
proof -
  have h1: "''exchange'' \<in> set (columns df_two)" "''securityType'' \<in> set (columns df_two)"
    by (simp_all add: df_two_def)
  have h2: "path_safe df_two"
    by (simp add: path_safe_def df_two_def cell_def row_a_def row_b_def safe_component_def)
  have h3: "distinct (map (\<lambda>r. cell r ''symbol'') (rows df_two))"
    by (simp add: df_two_def cell_def row_a_def row_b_def)
  have h4: "redis_matches Map.empty" by (simp add: redis_matches_def)
  have r: "row_a \<in> set (rows df_two)" by (simp add: df_two_def)
  have c: "cell row_a ''exchange'' = Some ''NYSE'' \<and> cell row_a ''securityType'' = Some ''EQUITY''"
    by (simp add: cell_def row_a_def)
  have f: "filter (\<lambda>r. cell r ''exchange'' = Some ''NYSE'' \<and> cell r ''securityType'' = Some ''EQUITY'')
             (rows df_two) = [row_a]"
    by (simp add: df_two_def cell_def row_a_def row_b_def)
  from partition_files_match_path [OF h1 h2 h3 h4, of w_empty tree_one "[''NYSE'', ''CME'']"]
  obtain w' where w: "split_symbols_by_exchange_and_type (Some df_two) w_empty = Inr w'"
    and a: "\<forall>r \<in> set (rows df_two). \<forall>e t.
            cell r ''exchange'' = Some e \<and> cell r ''securityType'' = Some t \<longrightarrow>
            split_path e t = ''dtn_symbols/by_exchange/'' @ e @ ''/'' @ t @ ''.csv''
            \<and> split_files w' (normpath (split_path e t))
                = Some (df_two\<lparr>rows := filter (\<lambda>r. cell r ''exchange'' = Some e
                                     \<and> cell r ''securityType'' = Some t) (rows df_two)\<rparr>)"
    by blast
  from a r c have "split_path ''NYSE'' ''EQUITY''
                     = ''dtn_symbols/by_exchange/'' @ ''NYSE'' @ ''/'' @ ''EQUITY'' @ ''.csv''
     \<and> split_files w' (normpath (split_path ''NYSE'' ''EQUITY''))
        = Some (df_two\<lparr>rows := filter (\<lambda>r. cell r ''exchange'' = Some ''NYSE''
                                   \<and> cell r ''securityType'' = Some ''EQUITY'') (rows df_two)\<rparr>)"
    by blast
  note q = this [unfolded f]
  from q have e1: "split_path ''NYSE'' ''EQUITY'' = ''dtn_symbols/by_exchange/NYSE/EQUITY.csv''"
    by simp
  from q have e2: "split_files w' (normpath (split_path ''NYSE'' ''EQUITY''))
               = Some (df_two\<lparr>rows := [row_a]\<rparr>)"
    by (rule conjunct2)
  from e2 have "split_files w' (normpath ''dtn_symbols/by_exchange/NYSE/EQUITY.csv'')
               = Some (df_two\<lparr>rows := [row_a]\<rparr>)"
    unfolding e1 .
  moreover have "snd (process_and_store_symbols tree_one Map.empty [''NYSE'', ''CME''])
                   ''symbols:NYSE:EQUITY'' = Some [row_a]"
    by (simp add: process_and_store_symbols_def tree_one_def store_file_def df_two_def
          groupby_def store_group_def cell_def row_a_def Let_def)
  ultimately show ?thesis using w by blast
qed

text \<open>
  C9, as stated, fails: for a table with both columns and one record of exchange
  \<^verbatim>\<open>NYSE\<close> and security type \<^verbatim>\<open>EQ/OPT\<close>, the target
  \<^verbatim>\<open>dtn_symbols/by_exchange/NYSE/EQ/OPT.csv\<close> lies in a directory that was never made;
  \<^verbatim>\<open>to_csv\<close> raises OSError and no file is written for the pair.
\<close>

theorem partition_raises_on_slash:
  "(case split_symbols_by_exchange_and_type (Some df_slash) w_empty of
      Inl (e, w') \<Rightarrow> e = OSError ''Cannot save file into a non-existent directory''
                       \<and> split_files w' = Map.empty
    | Inr w' \<Rightarrow> False)"
  by (simp add: split_symbols_by_exchange_and_type_def df_slash_def groupby_def cell_def
        write_exchange_def write_group_def to_csv_def makedirs_def normpath_def os_path_join_def
        output_dir_def w_empty_def Let_def List.map_filter_def)


section \<open>Resuming a harvest: evaluations\<close>

lemmas harvest_defs =
  download_all_symbols_def initial_vars_def load_batches_def restore_state_def
  get_categories_def session_get_def logger_def while_true.simps iteration_def
  handle_failure_def handle_page_def search_symbols_def attempts.simps attempt_once_def
  sleep_def save_symbols_batch_def DataFrame_def combine_def pd_concat_def
  drop_duplicates_def cell_def Let_def List.map_filter_def

text \<open>
  C4. The backend has two pages, the first of which holds the ticker \<^verbatim>\<open>NA\<close>. An
  uninterrupted run returns the records \<^verbatim>\<open>NA\<close> and \<^verbatim>\<open>B\<close>. A run interrupted after its first
  pass leaves \<^verbatim>\<open>batch_1.csv\<close> and the state file on disk; resumed from batch 2, it reads
  the batch back with \<^verbatim>\<open>pd.read_csv\<close>, whose defaults turn the ticker into NaN, and the
  merged dataset holds a record without symbol where the uninterrupted one holds \<^verbatim>\<open>NA\<close>.
\<close>

theorem resume_loses_na_symbol:
  "passes (Suc 0) tr_na_pages 0 (initial_vars read_csv_na None w_empty) w_categories
     = Inr (Again v_na_after_one, w_na_after_one)
   \<and> (case download_all_symbols read_csv_na tr_na_pages 0 None w_empty of
        Inl e \<Rightarrow> False
      | Inr (r, w') \<Rightarrow>
          r = Some \<lparr>columns = [''symbol''],
                     rows = [[(''symbol'', ''NA'')], [(''symbol'', ''B'')]]\<rparr>)
   \<and> (case download_all_symbols read_csv_na tr_na_pages 0 (Some 2) w_na_after_one of
        Inl e \<Rightarrow> False
      | Inr (r, w') \<Rightarrow>
          r = Some \<lparr>columns = [''symbol''], rows = [[], [(''symbol'', ''B'')]]\<rparr>)"
  by (simp add: harvest_defs w_empty_def w_categories_def tr_na_pages_def page_na_def
        page_last_def v_na_after_one_def w_na_after_one_def df_na_def read_csv_na_def
        na_values_def upto.simps)

text \<open>
  C10. With \<^verbatim>\<open>batch_1.csv\<close> on disk, no state file and \<^verbatim>\<open>resume_from_batch = 2\<close>, the
  cursor stays \<open>None\<close>: the first page is fetched again and stored as batch 2, so its
  record is in two batch files. Its ticker is \<^verbatim>\<open>NA\<close>; read back from \<^verbatim>\<open>batch_1.csv\<close> it
  is NaN, the deduplication by symbol does not identify the two copies, and the merged
  output holds the record twice, once without its symbol.
\<close>

theorem refetched_na_record_occurs_twice:
  "(case download_all_symbols read_csv_na tr_na_pages 0 (Some 2) w_na_no_state of
      Inl e \<Rightarrow> False
    | Inr (r, w') \<Rightarrow>
        r = Some \<lparr>columns = [''symbol''],
                   rows = [[], [(''symbol'', ''NA'')], [(''symbol'', ''B'')]]\<rparr>
        \<and> gets_of (trace w') = [Search None, Search (Some ''k1'')]
        \<and> batch_files w' 1 = Some df_na \<and> batch_files w' 2 = Some df_na
        \<and> batch_files w' 3 = Some df_b)"
  by (simp add: harvest_defs w_na_no_state_def tr_na_pages_def page_na_def
        page_last_def df_na_def df_b_def read_csv_na_def na_values_def upto.simps)

end
